theory Spec2Isabelle
  imports Complex_Main
begin

section \<open>LevelGenerator.js: the seeded pseudo-random stream\<close>

text \<open>
  JavaScript numbers are modelled exactly: integer-valued quantities (seed, level number,
  grid sizes) as \<open>nat\<close>, all other numbers as \<open>real\<close>. Rounding of IEEE doubles is not
  modelled.

  \<open>random(levelSeed)\<close> stores \<open>levelSeed\<close> in \<open>this.seed\<close> and returns a closure; each call
  of the closure replaces the seed by \<open>(seed * 9301 + 49297) % 233280\<close> and returns
  \<open>seed / 233280\<close>. The generator object is its \<open>seed\<close> field, threaded through every
  function that draws.
\<close>

definition rng_next :: "nat \<Rightarrow> nat" where
  "rng_next seed = (seed * 9301 + 49297) mod 233280"

definition rng_value :: "nat \<Rightarrow> real" where
  "rng_value seed = real seed / 233280"

text \<open>\<open>Math.floor(rng() * k)\<close>, read on the seed the call has just stored.\<close>

definition rng_floor :: "nat \<Rightarrow> nat \<Rightarrow> nat" where
  "rng_floor seed k = nat \<lfloor>rng_value seed * real k\<rfloor>"

definition random :: "nat \<Rightarrow> nat" where
  "random levelSeed = levelSeed"

section \<open>Difficulty profile and layout\<close>

record difficulty =
  dname :: string
  complexity :: nat
  dholes :: nat
  sizeBonus :: nat

definition getDifficulty :: "nat \<Rightarrow> difficulty" where
  "getDifficulty levelNum =
    (if levelNum \<le> 5 then \<lparr>dname = ''Easy'', complexity = 1, dholes = 1, sizeBonus = 0\<rparr>
     else if levelNum \<le> 10 then \<lparr>dname = ''Easy'', complexity = 1, dholes = 2, sizeBonus = 0\<rparr>
     else if levelNum \<le> 20 then \<lparr>dname = ''Easy'', complexity = 2, dholes = 3, sizeBonus = 15\<rparr>
     else if levelNum \<le> 30 then \<lparr>dname = ''Medium'', complexity = 3, dholes = 4, sizeBonus = 30\<rparr>
     else if levelNum \<le> 40 then \<lparr>dname = ''Medium'', complexity = 4, dholes = 5, sizeBonus = 50\<rparr>
     else if levelNum \<le> 50 then \<lparr>dname = ''Hard'', complexity = 5, dholes = 6, sizeBonus = 70\<rparr>
     else if levelNum \<le> 60 then \<lparr>dname = ''Hard'', complexity = 6, dholes = 7, sizeBonus = 90\<rparr>
     else if levelNum \<le> 70 then \<lparr>dname = ''Expert'', complexity = 7, dholes = 8, sizeBonus = 110\<rparr>
     else if levelNum \<le> 80 then \<lparr>dname = ''Expert'', complexity = 8, dholes = 9, sizeBonus = 130\<rparr>
     else if levelNum \<le> 90 then \<lparr>dname = ''Master'', complexity = 9, dholes = 10, sizeBonus = 150\<rparr>
     else \<lparr>dname = ''Master'', complexity = 10, dholes = 12, sizeBonus = 170\<rparr>)"

text \<open>The canvas and grid dimensions computed at the top of \<open>generateLevel\<close>.\<close>

definition levelWidth :: "nat \<Rightarrow> nat" where
  "levelWidth levelNum = nat \<lfloor>300 + real (sizeBonus (getDifficulty levelNum))\<rfloor>"

definition levelHeight :: "nat \<Rightarrow> nat" where
  "levelHeight levelNum = nat \<lfloor>420 + real (sizeBonus (getDifficulty levelNum)) * 1.2\<rfloor>"

definition levelCellSize :: "nat \<Rightarrow> nat" where
  "levelCellSize levelNum = max 50 (70 - complexity (getDifficulty levelNum) * 2)"

definition levelCols :: "nat \<Rightarrow> nat" where
  "levelCols levelNum = nat \<lfloor>(real (levelWidth levelNum) - 60) / real (levelCellSize levelNum)\<rfloor>"

definition levelRows :: "nat \<Rightarrow> nat" where
  "levelRows levelNum = nat \<lfloor>(real (levelHeight levelNum) - 60) / real (levelCellSize levelNum)\<rfloor>"

text \<open>Star thresholds (the end of \<open>generateLevel\<close>).\<close>

definition baseTime :: "nat \<Rightarrow> nat" where
  "baseTime levelNum = 12000 + levelNum * 600 + complexity (getDifficulty levelNum) * 1500"

definition levelStarTimes :: "nat \<Rightarrow> int list" where
  "levelStarTimes levelNum =
    [\<lfloor>real (baseTime levelNum)\<rfloor>,
     \<lfloor>real (baseTime levelNum) * 0.65\<rfloor>,
     \<lfloor>real (baseTime levelNum) * 0.4\<rfloor>]"

section \<open>Maze grid\<close>

text \<open>
  A cell is \<open>{ visited, walls: { top, right, bottom, left } }\<close>. The grid \<open>grid[row][col]\<close> is
  modelled as a function of the row and the column; the source reads and writes it only at
  indices it has checked against \<open>rows\<close> and \<open>cols\<close>.
\<close>

record cell_walls =
  top_w :: bool
  right_w :: bool
  bottom_w :: bool
  left_w :: bool

record cell =
  visited :: bool
  walls :: cell_walls

type_synonym grid = "nat \<Rightarrow> nat \<Rightarrow> cell"

definition new_cell :: cell where
  "new_cell = \<lparr>visited = False,
               walls = \<lparr>top_w = True, right_w = True, bottom_w = True, left_w = True\<rparr>\<rparr>"

definition upd_cell :: "grid \<Rightarrow> nat \<Rightarrow> nat \<Rightarrow> (cell \<Rightarrow> cell) \<Rightarrow> grid" where
  "upd_cell g row col f = g(row := (g row)(col := f (g row col)))"

definition set_visited :: "grid \<Rightarrow> nat \<Rightarrow> nat \<Rightarrow> grid" where
  "set_visited g row col = upd_cell g row col (\<lambda>c. c\<lparr>visited := True\<rparr>)"

definition clear_top :: "grid \<Rightarrow> nat \<Rightarrow> nat \<Rightarrow> grid" where
  "clear_top g row col = upd_cell g row col (\<lambda>c. c\<lparr>walls := (walls c)\<lparr>top_w := False\<rparr>\<rparr>)"

definition clear_right :: "grid \<Rightarrow> nat \<Rightarrow> nat \<Rightarrow> grid" where
  "clear_right g row col = upd_cell g row col (\<lambda>c. c\<lparr>walls := (walls c)\<lparr>right_w := False\<rparr>\<rparr>)"

definition clear_bottom :: "grid \<Rightarrow> nat \<Rightarrow> nat \<Rightarrow> grid" where
  "clear_bottom g row col = upd_cell g row col (\<lambda>c. c\<lparr>walls := (walls c)\<lparr>bottom_w := False\<rparr>\<rparr>)"

definition clear_left :: "grid \<Rightarrow> nat \<Rightarrow> nat \<Rightarrow> grid" where
  "clear_left g row col = upd_cell g row col (\<lambda>c. c\<lparr>walls := (walls c)\<lparr>left_w := False\<rparr>\<rparr>)"

text \<open>
  \<open>getUnvisitedNeighbors\<close>: the candidates in the order top, right, bottom, left (the
  \<open>dir\<close> tag of the source is never read and is left out). \<open>col < cols - 1\<close> is written
  \<open>col + 1 < cols\<close>, since subtraction on \<open>nat\<close> stops at zero.
\<close>

definition getUnvisitedNeighbors :: "grid \<Rightarrow> nat \<Rightarrow> nat \<Rightarrow> nat \<Rightarrow> nat \<Rightarrow> (nat \<times> nat) list" where
  "getUnvisitedNeighbors g row col rows cols =
    (if row > 0 \<and> \<not> visited (g (row - 1) col) then [(row - 1, col)] else []) @
    (if col + 1 < cols \<and> \<not> visited (g row (col + 1)) then [(row, col + 1)] else []) @
    (if row + 1 < rows \<and> \<not> visited (g (row + 1) col) then [(row + 1, col)] else []) @
    (if col > 0 \<and> \<not> visited (g row (col - 1)) then [(row, col - 1)] else [])"

definition removeWallBetween :: "grid \<Rightarrow> nat \<times> nat \<Rightarrow> nat \<times> nat \<Rightarrow> grid" where
  "removeWallBetween g current nxt =
    (let rowDiff = int (fst nxt) - int (fst current);
         colDiff = int (snd nxt) - int (snd current)
     in if rowDiff = -1 then
          clear_bottom (clear_top g (fst current) (snd current)) (fst nxt) (snd nxt)
        else if rowDiff = 1 then
          clear_top (clear_bottom g (fst current) (snd current)) (fst nxt) (snd nxt)
        else if colDiff = 1 then
          clear_left (clear_right g (fst current) (snd current)) (fst nxt) (snd nxt)
        else if colDiff = -1 then
          clear_right (clear_left g (fst current) (snd current)) (fst nxt) (snd nxt)
        else g)"

text \<open>
  The recursive-backtracking loop \<open>while (stack.length > 0)\<close>. The stack is a list whose
  head is the top (\<open>stack[stack.length - 1]\<close>). Every iteration either pops, or draws once
  and pushes an unvisited neighbour; the measure below is the termination argument.
\<close>

definition unvisited_count :: "nat \<Rightarrow> nat \<Rightarrow> grid \<Rightarrow> nat" where
  "unvisited_count rows cols g =
    card {p \<in> {..<rows} \<times> {..<cols}. \<not> visited (g (fst p) (snd p))}"

function carve :: "nat \<Rightarrow> nat \<Rightarrow> grid \<Rightarrow> (nat \<times> nat) list \<Rightarrow> nat \<Rightarrow> grid \<times> nat" where
  "carve rows cols g [] seed = (g, seed)"
| "carve rows cols g (current # stack) seed =
    (let neighbors = getUnvisitedNeighbors g (fst current) (snd current) rows cols
     in if length neighbors = 0 then carve rows cols g stack seed
        else
          let seed' = rng_next seed;
              nxt = neighbors ! rng_floor seed' (length neighbors);
              g1 = removeWallBetween g current nxt;
              g2 = set_visited g1 (fst nxt) (snd nxt)
          in carve rows cols g2 (nxt # current # stack) seed')"
  by pat_completeness auto

lemma rng_next_lt: "rng_next s < 233280"
  by (simp add: rng_next_def)

lemma rng_floor_lt: "0 < k \<Longrightarrow> s < 233280 \<Longrightarrow> rng_floor s k < k"
proof -
  assume k: "0 < k" and s: "s < 233280"
  have "rng_value s * real k < real k"
    using k s by (simp add: rng_value_def)
  moreover have "0 \<le> rng_value s * real k" by (simp add: rng_value_def)
  ultimately show ?thesis
    unfolding rng_floor_def by (simp add: floor_less_iff nat_less_iff)
qed

lemma upd_cell_apply:
  "upd_cell g r c f r' c' = (if r' = r \<and> c' = c then f (g r c) else g r' c')"
  by (simp add: upd_cell_def)

lemma visited_set_visited:
  "visited (set_visited g r c r' c') = (visited (g r' c') \<or> (r' = r \<and> c' = c))"
  by (auto simp add: set_visited_def upd_cell_apply)

lemma walls_set_visited: "walls (set_visited g r c r' c') = walls (g r' c')"
  by (simp add: set_visited_def upd_cell_apply)

lemma visited_clear:
  "visited (clear_top g r c r' c') = visited (g r' c')"
  "visited (clear_right g r c r' c') = visited (g r' c')"
  "visited (clear_bottom g r c r' c') = visited (g r' c')"
  "visited (clear_left g r c r' c') = visited (g r' c')"
  by (simp_all add: clear_top_def clear_right_def clear_bottom_def clear_left_def upd_cell_apply)

lemma visited_removeWallBetween:
  "visited (removeWallBetween g a b r c) = visited (g r c)"
  by (simp add: removeWallBetween_def Let_def visited_clear)

lemma neighbors_unvisited:
  "p \<in> set (getUnvisitedNeighbors g r c rows cols) \<Longrightarrow> \<not> visited (g (fst p) (snd p))"
  by (auto simp: getUnvisitedNeighbors_def split: if_splits)

lemma neighbors_bound:
  "p \<in> set (getUnvisitedNeighbors g r c rows cols) \<Longrightarrow>
     fst p < max rows (Suc r) \<and> snd p < max cols (Suc c)"
  by (auto simp: getUnvisitedNeighbors_def split: if_splits)

definition stack_rows :: "nat \<Rightarrow> (nat \<times> nat) list \<Rightarrow> nat" where
  "stack_rows rows st = fold (\<lambda>p b. max b (Suc (fst p))) st rows"

definition stack_cols :: "nat \<Rightarrow> (nat \<times> nat) list \<Rightarrow> nat" where
  "stack_cols cols st = fold (\<lambda>p b. max b (Suc (snd p))) st cols"

lemma fold_max_mono: "b \<le> b' \<Longrightarrow> fold (\<lambda>p b. max b (f p)) st b \<le> fold (\<lambda>p b. max b (f p)) st (b'::nat)"
  by (induction st arbitrary: b b') auto

lemma fold_max_ge: "(b::nat) \<le> fold (\<lambda>p b. max b (f p)) st b"
proof (induction st arbitrary: b)
  case Nil show ?case by simp
next
  case (Cons a st)
  have "b \<le> max b (f a)" by simp
  also have "\<dots> \<le> fold (\<lambda>p b. max b (f p)) st (max b (f a))" by (rule Cons.IH)
  finally show ?case by simp
qed

lemma fold_max_absorb:
  "x \<le> (b::nat) \<Longrightarrow> fold (\<lambda>p b. max b (f p)) st (max b x) = fold (\<lambda>p b. max b (f p)) st b"
  by (simp add: max_def)

lemma unvisited_count_mono:
  "R \<le> R' \<Longrightarrow> C \<le> C' \<Longrightarrow> unvisited_count R C g \<le> unvisited_count R' C' g"
  unfolding unvisited_count_def
  by (rule card_mono) auto

lemma unvisited_count_visit:
  assumes "r < R" "c < C" "\<not> visited (g r c)"
    and "\<And>r' c'. visited (g' r' c') = (visited (g r' c') \<or> (r' = r \<and> c' = c))"
  shows "unvisited_count R C g' < unvisited_count R C g"
  unfolding unvisited_count_def
proof (rule psubset_card_mono)
  show "finite {p \<in> {..<R} \<times> {..<C}. \<not> visited (g (fst p) (snd p))}" by simp
  have "(r, c) \<in> {p \<in> {..<R} \<times> {..<C}. \<not> visited (g (fst p) (snd p))}"
    using assms by simp
  moreover have "(r, c) \<notin> {p \<in> {..<R} \<times> {..<C}. \<not> visited (g' (fst p) (snd p))}"
    using assms(4) by simp
  moreover have "{p \<in> {..<R} \<times> {..<C}. \<not> visited (g' (fst p) (snd p))}
      \<subseteq> {p \<in> {..<R} \<times> {..<C}. \<not> visited (g (fst p) (snd p))}"
    using assms(4) by auto
  ultimately show "{p \<in> {..<R} \<times> {..<C}. \<not> visited (g' (fst p) (snd p))}
      \<subset> {p \<in> {..<R} \<times> {..<C}. \<not> visited (g (fst p) (snd p))}"
    by blast
qed

definition carve_measure :: "nat \<times> nat \<times> grid \<times> (nat \<times> nat) list \<times> nat \<Rightarrow> nat" where
  "carve_measure = (\<lambda>(rows, cols, g, st, seed).
     2 * unvisited_count (stack_rows rows st) (stack_cols cols st) g + length st)"

termination carve
proof (relation "measure carve_measure")
  show "wf (measure carve_measure)" by simp
next
  fix rows cols :: nat and g :: grid and current :: "nat \<times> nat" and stack seed
  show "((rows, cols, g, stack, seed), (rows, cols, g, current # stack, seed)) \<in> measure carve_measure"
  proof -
    have "stack_rows rows stack \<le> stack_rows rows (current # stack)"
      unfolding stack_rows_def by (simp add: fold_max_mono)
    moreover have "stack_cols cols stack \<le> stack_cols cols (current # stack)"
      unfolding stack_cols_def by (simp add: fold_max_mono)
    ultimately have "unvisited_count (stack_rows rows stack) (stack_cols cols stack) g
        \<le> unvisited_count (stack_rows rows (current # stack)) (stack_cols cols (current # stack)) g"
      by (rule unvisited_count_mono)
    then show ?thesis by (simp add: carve_measure_def)
  qed
next
  fix rows cols :: nat and g :: grid and current :: "nat \<times> nat" and stack seed
    and neighbors seed' nxt g1 g2
  assume nb: "neighbors = getUnvisitedNeighbors g (fst current) (snd current) rows cols"
    and ne: "length neighbors \<noteq> 0"
    and s': "seed' = rng_next seed"
    and nx: "nxt = neighbors ! rng_floor seed' (length neighbors)"
    and g1: "g1 = removeWallBetween g current nxt"
    and g2: "g2 = set_visited g1 (fst nxt) (snd nxt)"
  have "rng_floor seed' (length neighbors) < length neighbors"
    using ne s' by (simp add: rng_floor_lt rng_next_lt)
  then have mem: "nxt \<in> set (getUnvisitedNeighbors g (fst current) (snd current) rows cols)"
    using nx nb by simp
  have unv: "\<not> visited (g (fst nxt) (snd nxt))" by (rule neighbors_unvisited [OF mem])
  have bnd: "fst nxt < max rows (Suc (fst current))" "snd nxt < max cols (Suc (snd current))"
    using neighbors_bound [OF mem] by simp_all
  let ?R = "stack_rows rows (current # stack)" and ?C = "stack_cols cols (current # stack)"
  have R: "max rows (Suc (fst current)) \<le> ?R"
    unfolding stack_rows_def by (simp add: fold_max_ge)
  have C: "max cols (Suc (snd current)) \<le> ?C"
    unfolding stack_cols_def by (simp add: fold_max_ge)
  have R': "stack_rows rows (nxt # current # stack) = ?R"
  proof -
    have "max (max rows (Suc (fst nxt))) (Suc (fst current)) = max rows (Suc (fst current))"
      using bnd by linarith
    then show ?thesis unfolding stack_rows_def
      by (simp only: fold_simps)
  qed
  have C': "stack_cols cols (nxt # current # stack) = ?C"
  proof -
    have "max (max cols (Suc (snd nxt))) (Suc (snd current)) = max cols (Suc (snd current))"
      using bnd by linarith
    then show ?thesis unfolding stack_cols_def
      by (simp only: fold_simps)
  qed
  have vis: "\<And>r' c'. visited (g2 r' c') = (visited (g r' c') \<or> (r' = fst nxt \<and> c' = snd nxt))"
    by (simp add: g2 g1 visited_set_visited visited_removeWallBetween)
  have "unvisited_count ?R ?C g2 < unvisited_count ?R ?C g"
    by (rule unvisited_count_visit [OF _ _ unv vis]) (use bnd R C in linarith)+
  then show "((rows, cols, g2, nxt # current # stack, seed'), (rows, cols, g, current # stack, seed))
      \<in> measure carve_measure"
    by (simp add: carve_measure_def R' C')
qed

text \<open>
  The extra passages: \<open>for (i = 0; i < extraPassages; i++)\<close>, three draws per round
  (row, column, direction), the first argument counting the rounds left.
\<close>

fun addExtraPassages :: "nat \<Rightarrow> nat \<Rightarrow> nat \<Rightarrow> grid \<Rightarrow> nat \<Rightarrow> grid \<times> nat" where
  "addExtraPassages 0 rows cols g seed = (g, seed)"
| "addExtraPassages (Suc k) rows cols g seed =
    (let s1 = rng_next seed; row = rng_floor s1 rows;
         s2 = rng_next s1; col = rng_floor s2 cols;
         s3 = rng_next s2; dir = rng_floor s3 4;
         g' = (if dir = 0 \<and> row > 0 then clear_bottom (clear_top g row col) (row - 1) col
               else if dir = 1 \<and> col + 1 < cols then clear_left (clear_right g row col) row (col + 1)
               else if dir = 2 \<and> row + 1 < rows then clear_top (clear_bottom g row col) (row + 1) col
               else if dir = 3 \<and> col > 0 then clear_right (clear_left g row col) row (col - 1)
               else g)
     in addExtraPassages k rows cols g' s3)"

text \<open>
  \<open>generateMazeGrid\<close> for \<open>rows \<ge> 1\<close> and \<open>cols \<ge> 1\<close>, which is how \<open>generateLevel\<close> calls
  it (\<open>levelCols_ge\<close>, \<open>levelRows_ge\<close> below); on an empty grid the source fails on
  \<open>grid[startRow][startCol]\<close>. \<open>carved_grid\<close> is the grid when the \<open>while\<close> loop ends,
  before the extra passages.
\<close>

definition initial_grid :: grid where
  "initial_grid = (\<lambda>row col. new_cell)"

definition carved_grid :: "nat \<Rightarrow> nat \<Rightarrow> nat \<Rightarrow> grid \<times> nat" where
  "carved_grid cols rows seed =
    (let startRow = rows - 1; startCol = 0;
         g = set_visited initial_grid startRow startCol
     in carve rows cols g [(startRow, startCol)] seed)"

definition generateMazeGrid :: "nat \<Rightarrow> nat \<Rightarrow> nat \<Rightarrow> grid \<times> nat" where
  "generateMazeGrid cols rows seed =
    (let (g, seed1) = carved_grid cols rows seed;
         extraPassages = nat \<lfloor>real (cols * rows) * 0.08\<rfloor>
     in addExtraPassages extraPassages rows cols g seed1)"

section \<open>Level entities\<close>

record point =
  px :: real
  py :: real

record goal_circle =
  goal_x :: real
  goal_y :: real
  goal_radius :: real

record wall =
  wall_x :: real
  wall_y :: real
  wall_width :: real
  wall_height :: real

record hole =
  hole_x :: real
  hole_y :: real
  hole_radius :: real

datatype powerup_type =
  speed_boost | slow_motion | shield | magnet | shrink | ghost | time_freeze | double_coins

record powerup =
  pu_x :: real
  pu_y :: real
  pu_type :: powerup_type
  pu_radius :: real

datatype pad_direction = Up | Down | Left | Right

record bouncePad =
  pad_x :: real
  pad_y :: real
  pad_width :: real
  pad_height :: real
  pad_dir :: pad_direction
  pad_force :: real

datatype zone_type = Slow | Fast

record speedZone =
  zone_x :: real
  zone_y :: real
  zone_width :: real
  zone_height :: real
  zone_kind :: zone_type
  zone_multiplier :: real

datatype axis = Vertical | Horizontal

record movingWall =
  originalX :: real
  originalY :: real
  mw_width :: real
  mw_height :: real
  mw_direction :: axis
  mw_range :: real
  mw_speed :: real
  mw_phase :: real

text \<open>
  The level object. \<open>start\<close> and \<open>goal\<close> are optional, since the engine may be handed an
  object without them; the generator always sets both.
\<close>

record MazeDefinition =
  level_id :: nat
  level_name :: string
  level_difficulty :: string
  width :: real
  height :: real
  ballRadius :: real
  start :: "point option"
  goal :: "goal_circle option"
  level_walls :: "wall list"
  holes :: "hole list"
  coins :: "point list"
  extraLives :: "point list"
  powerups :: "powerup list"
  bouncePads :: "bouncePad list"
  speedZones :: "speedZone list"
  movingWalls :: "movingWall list"
  starTimes :: "int list"
  generated :: bool

text \<open>\<open>Math.sqrt((x1 - x2) ** 2 + (y1 - y2) ** 2)\<close> and \<open>Math.round\<close>.\<close>

definition dist2d :: "real \<Rightarrow> real \<Rightarrow> real \<Rightarrow> real \<Rightarrow> real" where
  "dist2d x1 y1 x2 y2 = sqrt ((x1 - x2)\<^sup>2 + (y1 - y2)\<^sup>2)"

definition js_round :: "real \<Rightarrow> real" where
  "js_round v = of_int \<lfloor>v + 1/2\<rfloor>"

text \<open>The centre of a cell: \<open>offset + index * cellSize + cellSize / 2\<close>.\<close>

definition cell_centre :: "real \<Rightarrow> nat \<Rightarrow> nat \<Rightarrow> real" where
  "cell_centre offset cellSize i = offset + real i * real cellSize + real cellSize / 2"

section \<open>mazeToWalls\<close>

definition cell_rects :: "grid \<Rightarrow> nat \<Rightarrow> real \<Rightarrow> real \<Rightarrow> nat \<Rightarrow> nat \<Rightarrow> wall list" where
  "cell_rects g cellSize offsetX offsetY row col =
    (let W = 8; c = g row col;
         wx = offsetX + real col * real cellSize;
         wy = offsetY + real row * real cellSize
     in (if top_w (walls c) \<and> row > 0
         then [\<lparr>wall_x = wx, wall_y = wy - W / 2, wall_width = real cellSize, wall_height = W\<rparr>]
         else []) @
        (if left_w (walls c) \<and> col > 0
         then [\<lparr>wall_x = wx - W / 2, wall_y = wy, wall_width = W, wall_height = real cellSize\<rparr>]
         else []) @
        (if (top_w (walls c) \<or> left_w (walls c)) \<and> row > 0 \<and> col > 0 then
           (let topCell = g (row - 1) col; leftCell = g row (col - 1)
            in if top_w (walls c) \<or> left_w (walls c) \<or> left_w (walls topCell) \<or> top_w (walls leftCell)
               then [\<lparr>wall_x = wx - W / 2, wall_y = wy - W / 2, wall_width = W, wall_height = W\<rparr>]
               else [])
         else []))"

definition mazeToWalls :: "grid \<Rightarrow> nat \<Rightarrow> nat \<Rightarrow> nat \<Rightarrow> real \<Rightarrow> real \<Rightarrow> wall list" where
  "mazeToWalls g cols rows cellSize canvasWidth canvasHeight =
    (let W = 8;
         offsetX = (canvasWidth - real cols * real cellSize) / 2;
         offsetY = (canvasHeight - real rows * real cellSize) / 2
     in [\<lparr>wall_x = 0, wall_y = 0, wall_width = canvasWidth, wall_height = W\<rparr>,
         \<lparr>wall_x = 0, wall_y = canvasHeight - W, wall_width = canvasWidth, wall_height = W\<rparr>,
         \<lparr>wall_x = 0, wall_y = 0, wall_width = W, wall_height = canvasHeight\<rparr>,
         \<lparr>wall_x = canvasWidth - W, wall_y = 0, wall_width = W, wall_height = canvasHeight\<rparr>] @
        concat (map (\<lambda>row. concat (map (\<lambda>col. cell_rects g cellSize offsetX offsetY row col)
                                      [0..<cols])) [0..<rows]) @
        concat (map (\<lambda>row. if right_w (walls (g row (cols - 1)))
                     then [\<lparr>wall_x = offsetX + real cols * real cellSize - W / 2,
                            wall_y = offsetY + real row * real cellSize,
                            wall_width = W, wall_height = real cellSize\<rparr>]
                     else []) [0..<rows]) @
        concat (map (\<lambda>col. if bottom_w (walls (g (rows - 1) col))
                     then [\<lparr>wall_x = offsetX + real col * real cellSize,
                            wall_y = offsetY + real rows * real cellSize - W / 2,
                            wall_width = real cellSize, wall_height = W\<rparr>]
                     else []) [0..<cols]))"

section \<open>generateHoles\<close>

text \<open>
  One hole: the loop \<open>while (attempts < 30)\<close>, the first argument counting the attempts
  left. Each attempt draws the column, the row and the radius, then either \<open>continue\<close>s or
  pushes the hole and \<open>break\<close>s.
\<close>

fun placeHole :: "nat \<Rightarrow> nat \<Rightarrow> nat \<Rightarrow> nat \<Rightarrow> real \<Rightarrow> real \<Rightarrow> point \<Rightarrow> goal_circle
    \<Rightarrow> hole list \<Rightarrow> nat \<Rightarrow> hole list \<times> nat" where
  "placeHole 0 cols rows cellSize offsetX offsetY st gl hs seed = (hs, seed)"
| "placeHole (Suc k) cols rows cellSize offsetX offsetY st gl hs seed =
    (let s1 = rng_next seed; col = rng_floor s1 cols;
         s2 = rng_next s1; row = rng_floor s2 rows;
         hx = cell_centre offsetX cellSize col;
         hy = cell_centre offsetY cellSize row;
         s3 = rng_next s2; radius = 10 + real (rng_floor s3 4);
         distStart = dist2d hx hy (px st) (py st);
         distGoal = dist2d hx hy (goal_x gl) (goal_y gl)
     in if distStart < real cellSize * 1.5 \<or> distGoal < real cellSize * 1.5
        then placeHole k cols rows cellSize offsetX offsetY st gl hs s3
        else if \<exists>h \<in> set hs. dist2d hx hy (hole_x h) (hole_y h) < real cellSize
        then placeHole k cols rows cellSize offsetX offsetY st gl hs s3
        else (hs @ [\<lparr>hole_x = hx, hole_y = hy, hole_radius = radius\<rparr>], s3))"

fun holesLoop :: "nat \<Rightarrow> nat \<Rightarrow> nat \<Rightarrow> nat \<Rightarrow> real \<Rightarrow> real \<Rightarrow> point \<Rightarrow> goal_circle
    \<Rightarrow> hole list \<Rightarrow> nat \<Rightarrow> hole list \<times> nat" where
  "holesLoop 0 cols rows cellSize offsetX offsetY st gl hs seed = (hs, seed)"
| "holesLoop (Suc n) cols rows cellSize offsetX offsetY st gl hs seed =
    (let (hs', seed') = placeHole 30 cols rows cellSize offsetX offsetY st gl hs seed
     in holesLoop n cols rows cellSize offsetX offsetY st gl hs' seed')"

definition generateHoles :: "nat \<Rightarrow> nat \<Rightarrow> nat \<Rightarrow> real \<Rightarrow> real \<Rightarrow> difficulty \<Rightarrow> point
    \<Rightarrow> goal_circle \<Rightarrow> nat \<Rightarrow> hole list \<times> nat" where
  "generateHoles cols rows cellSize offsetX offsetY d st gl seed =
    holesLoop (dholes d) cols rows cellSize offsetX offsetY st gl [] seed"

section \<open>generateCoins\<close>

definition wallCount :: "cell \<Rightarrow> nat" where
  "wallCount c = length (filter (\<lambda>w. w)
     [top_w (walls c), right_w (walls c), bottom_w (walls c), left_w (walls c)])"

text \<open>Dead ends as \<open>(row, col)\<close>, in the order of the two nested loops.\<close>

definition deadEndCells :: "grid \<Rightarrow> nat \<Rightarrow> nat \<Rightarrow> (nat \<times> nat) list" where
  "deadEndCells g cols rows =
    concat (map (\<lambda>row. concat (map (\<lambda>col. if wallCount (g row col) \<ge> 3 then [(row, col)] else [])
                                  [0..<cols])) [0..<rows])"

text \<open>
  The shuffle \<open>for (i = length - 1; i > 0; i--)\<close>: one draw \<open>j = floor(rng() * (i + 1))\<close> and
  a swap of positions \<open>i\<close> and \<open>j\<close> per round.
\<close>

fun shuffleLoop :: "nat \<Rightarrow> 'a list \<Rightarrow> nat \<Rightarrow> 'a list \<times> nat" where
  "shuffleLoop 0 xs seed = (xs, seed)"
| "shuffleLoop (Suc i) xs seed =
    (let s1 = rng_next seed; j = rng_floor s1 (Suc i + 1)
     in shuffleLoop i (xs[Suc i := xs ! j, j := xs ! Suc i]) s1)"

definition shuffle :: "'a list \<Rightarrow> nat \<Rightarrow> 'a list \<times> nat" where
  "shuffle xs seed = shuffleLoop (length xs - 1) xs seed"

definition deadEndCoins :: "nat \<Rightarrow> (nat \<times> nat) list \<Rightarrow> nat \<Rightarrow> real \<Rightarrow> real \<Rightarrow> point
    \<Rightarrow> goal_circle \<Rightarrow> point list" where
  "deadEndCoins numCoins deadEnds cellSize offsetX offsetY st gl =
    concat (map (\<lambda>c.
      let cx = cell_centre offsetX cellSize (snd c);
          cy = cell_centre offsetY cellSize (fst c);
          distStart = dist2d cx cy (px st) (py st);
          distGoal = dist2d cx cy (goal_x gl) (goal_y gl)
      in if distStart > real cellSize \<and> distGoal > real cellSize
         then [\<lparr>px = js_round cx, py = js_round cy\<rparr>] else [])
      (take (min numCoins (length deadEnds)) deadEnds))"

text \<open>
  The top-up loop \<open>while (coins.length < numCoins)\<close> has no attempt counter: it ends only
  when the list is full. \<open>None\<close> is the loop that never ends.
\<close>

partial_function (option) fillCoins :: "nat \<Rightarrow> nat \<Rightarrow> nat \<Rightarrow> nat \<Rightarrow> real \<Rightarrow> real \<Rightarrow> point
    \<Rightarrow> goal_circle \<Rightarrow> point list \<Rightarrow> nat \<Rightarrow> (point list \<times> nat) option" where
  "fillCoins numCoins cols rows cellSize offsetX offsetY st gl cs seed =
    (if length cs < numCoins then
       (let s1 = rng_next seed; col = rng_floor s1 cols;
            s2 = rng_next s1; row = rng_floor s2 rows;
            cx = cell_centre offsetX cellSize col;
            cy = cell_centre offsetY cellSize row;
            distStart = dist2d cx cy (px st) (py st);
            distGoal = dist2d cx cy (goal_x gl) (goal_y gl)
        in if distStart < real cellSize \<or> distGoal < real cellSize
           then fillCoins numCoins cols rows cellSize offsetX offsetY st gl cs s2
           else if \<exists>c \<in> set cs. dist2d cx cy (px c) (py c) < real cellSize * 0.8
           then fillCoins numCoins cols rows cellSize offsetX offsetY st gl cs s2
           else fillCoins numCoins cols rows cellSize offsetX offsetY st gl
                  (cs @ [\<lparr>px = js_round cx, py = js_round cy\<rparr>]) s2)
     else Some (cs, seed))"

definition generateCoins :: "nat \<Rightarrow> grid \<Rightarrow> nat \<Rightarrow> nat \<Rightarrow> nat \<Rightarrow> real \<Rightarrow> real \<Rightarrow> point
    \<Rightarrow> goal_circle \<Rightarrow> nat \<Rightarrow> (point list \<times> nat) option" where
  "generateCoins levelNum maze cols rows cellSize offsetX offsetY st gl seed =
    (let numCoins = min (3 + levelNum div 12) 10;
         (deadEnds, seed1) = shuffle (deadEndCells maze cols rows) seed;
         cs = deadEndCoins numCoins deadEnds cellSize offsetX offsetY st gl
     in fillCoins numCoins cols rows cellSize offsetX offsetY st gl cs seed1)"

section \<open>generateExtraLives\<close>

definition lifeSpots :: "grid \<Rightarrow> nat \<Rightarrow> nat \<Rightarrow> nat \<Rightarrow> real \<Rightarrow> real \<Rightarrow> point \<Rightarrow> goal_circle
    \<Rightarrow> point list \<Rightarrow> hole list \<Rightarrow> point list" where
  "lifeSpots maze cols rows cellSize offsetX offsetY st gl cs hs =
    concat (map (\<lambda>row. concat (map (\<lambda>col.
      if wallCount (maze row col) \<ge> 3 then
        (let lx = cell_centre offsetX cellSize col;
             ly = cell_centre offsetY cellSize row;
             distStart = dist2d lx ly (px st) (py st);
             distGoal = dist2d lx ly (goal_x gl) (goal_y gl)
         in if distStart < real cellSize * 2 \<or> distGoal < real cellSize * 2 then []
            else if \<exists>c \<in> set cs. dist2d lx ly (px c) (py c) < real cellSize * 0.5 then []
            else if \<exists>h \<in> set hs. dist2d lx ly (hole_x h) (hole_y h) < real cellSize * 0.5 then []
            else [\<lparr>px = lx, py = ly\<rparr>])
      else []) [0..<cols])) [0..<rows])"

definition generateExtraLives :: "nat \<Rightarrow> grid \<Rightarrow> nat \<Rightarrow> nat \<Rightarrow> nat \<Rightarrow> real \<Rightarrow> real \<Rightarrow> point
    \<Rightarrow> goal_circle \<Rightarrow> point list \<Rightarrow> hole list \<Rightarrow> nat \<Rightarrow> point list \<times> nat" where
  "generateExtraLives levelNum maze cols rows cellSize offsetX offsetY st gl cs hs seed =
    (let chanceForLife = min 0.3 (0.05 + real levelNum * 0.003);
         s1 = rng_next seed
     in if rng_value s1 > chanceForLife then ([], s1)
        else
          let deadEnds = lifeSpots maze cols rows cellSize offsetX offsetY st gl cs hs
          in if length deadEnds > 0 then
               (let s2 = rng_next s1;
                    spot = deadEnds ! rng_floor s2 (length deadEnds)
                in ([\<lparr>px = js_round (px spot), py = js_round (py spot)\<rparr>], s2))
             else ([], s1))"

section \<open>generatePowerups\<close>

definition availableTypes :: "nat \<Rightarrow> powerup_type list" where
  "availableTypes levelNum =
    (if levelNum \<ge> 6 then [speed_boost, slow_motion] else []) @
    (if levelNum \<ge> 15 then [shield] else []) @
    (if levelNum \<ge> 25 then [magnet, shrink] else []) @
    (if levelNum \<ge> 35 then [ghost] else []) @
    (if levelNum \<ge> 45 then [time_freeze] else []) @
    (if levelNum \<ge> 55 then [double_coins] else [])"

text \<open>One powerup: \<open>for (attempt = 0; attempt < 20; attempt++)\<close>, counting the attempts left.\<close>

fun placePowerup :: "nat \<Rightarrow> powerup_type list \<Rightarrow> nat \<Rightarrow> nat \<Rightarrow> nat \<Rightarrow> real \<Rightarrow> real \<Rightarrow> point
    \<Rightarrow> goal_circle \<Rightarrow> hole list \<Rightarrow> powerup list \<Rightarrow> nat \<Rightarrow> powerup list \<times> nat" where
  "placePowerup 0 types cols rows cellSize offsetX offsetY st gl hs ps seed = (ps, seed)"
| "placePowerup (Suc k) types cols rows cellSize offsetX offsetY st gl hs ps seed =
    (let s1 = rng_next seed; col = rng_floor s1 cols;
         s2 = rng_next s1; row = rng_floor s2 rows;
         ux = cell_centre offsetX cellSize col;
         uy = cell_centre offsetY cellSize row;
         distStart = dist2d ux uy (px st) (py st);
         distGoal = dist2d ux uy (goal_x gl) (goal_y gl)
     in if distStart < real cellSize * 2 \<or> distGoal < real cellSize
        then placePowerup k types cols rows cellSize offsetX offsetY st gl hs ps s2
        else if \<exists>h \<in> set hs. dist2d ux uy (hole_x h) (hole_y h) < real cellSize
        then placePowerup k types cols rows cellSize offsetX offsetY st gl hs ps s2
        else if \<exists>p \<in> set ps. dist2d ux uy (pu_x p) (pu_y p) < real cellSize * 1.5
        then placePowerup k types cols rows cellSize offsetX offsetY st gl hs ps s2
        else
          let s3 = rng_next s2; ty = types ! rng_floor s3 (length types)
          in (ps @ [\<lparr>pu_x = js_round ux, pu_y = js_round uy, pu_type = ty, pu_radius = 14\<rparr>], s3))"

fun powerupsLoop :: "nat \<Rightarrow> powerup_type list \<Rightarrow> nat \<Rightarrow> nat \<Rightarrow> nat \<Rightarrow> real \<Rightarrow> real \<Rightarrow> point
    \<Rightarrow> goal_circle \<Rightarrow> hole list \<Rightarrow> powerup list \<Rightarrow> nat \<Rightarrow> powerup list \<times> nat" where
  "powerupsLoop 0 types cols rows cellSize offsetX offsetY st gl hs ps seed = (ps, seed)"
| "powerupsLoop (Suc n) types cols rows cellSize offsetX offsetY st gl hs ps seed =
    (let (ps', seed') = placePowerup 20 types cols rows cellSize offsetX offsetY st gl hs ps seed
     in powerupsLoop n types cols rows cellSize offsetX offsetY st gl hs ps' seed')"

definition generatePowerups :: "nat \<Rightarrow> nat \<Rightarrow> nat \<Rightarrow> nat \<Rightarrow> real \<Rightarrow> real \<Rightarrow> point \<Rightarrow> goal_circle
    \<Rightarrow> hole list \<Rightarrow> nat \<Rightarrow> powerup list \<times> nat" where
  "generatePowerups levelNum cols rows cellSize offsetX offsetY st gl hs seed =
    (if levelNum < 6 then ([], seed)
     else
       let numPowerups = min 3 ((levelNum - 5) div 15 + 1)
       in powerupsLoop numPowerups (availableTypes levelNum) cols rows cellSize offsetX offsetY
            st gl hs [] seed)"

section \<open>generateBouncePads\<close>

definition directions :: "pad_direction list" where
  "directions = [Up, Down, Left, Right]"

fun placePad :: "nat \<Rightarrow> nat \<Rightarrow> nat \<Rightarrow> nat \<Rightarrow> real \<Rightarrow> real \<Rightarrow> point \<Rightarrow> goal_circle
    \<Rightarrow> hole list \<Rightarrow> bouncePad list \<Rightarrow> nat \<Rightarrow> bouncePad list \<times> nat" where
  "placePad 0 cols rows cellSize offsetX offsetY st gl hs bs seed = (bs, seed)"
| "placePad (Suc k) cols rows cellSize offsetX offsetY st gl hs bs seed =
    (let s1 = rng_next seed; col = rng_floor s1 cols;
         s2 = rng_next s1; row = rng_floor s2 rows;
         qx = cell_centre offsetX cellSize col;
         qy = cell_centre offsetY cellSize row;
         distStart = dist2d qx qy (px st) (py st);
         distGoal = dist2d qx qy (goal_x gl) (goal_y gl)
     in if distStart < real cellSize * 1.5 \<or> distGoal < real cellSize * 1.5
        then placePad k cols rows cellSize offsetX offsetY st gl hs bs s2
        else if \<exists>h \<in> set hs. dist2d qx qy (hole_x h) (hole_y h) < real cellSize * 0.8
        then placePad k cols rows cellSize offsetX offsetY st gl hs bs s2
        else if \<exists>b \<in> set bs. dist2d qx qy (pad_x b) (pad_y b) < real cellSize * 2
        then placePad k cols rows cellSize offsetX offsetY st gl hs bs s2
        else
          let s3 = rng_next s2; direction = directions ! rng_floor s3 (length directions);
              s4 = rng_next s3
          in (bs @ [\<lparr>pad_x = js_round qx, pad_y = js_round qy, pad_width = 25, pad_height = 10,
                     pad_dir = direction, pad_force = 12 + real (rng_floor s4 6)\<rparr>], s4))"

fun padsLoop :: "nat \<Rightarrow> nat \<Rightarrow> nat \<Rightarrow> nat \<Rightarrow> real \<Rightarrow> real \<Rightarrow> point \<Rightarrow> goal_circle
    \<Rightarrow> hole list \<Rightarrow> bouncePad list \<Rightarrow> nat \<Rightarrow> bouncePad list \<times> nat" where
  "padsLoop 0 cols rows cellSize offsetX offsetY st gl hs bs seed = (bs, seed)"
| "padsLoop (Suc n) cols rows cellSize offsetX offsetY st gl hs bs seed =
    (let (bs', seed') = placePad 20 cols rows cellSize offsetX offsetY st gl hs bs seed
     in padsLoop n cols rows cellSize offsetX offsetY st gl hs bs' seed')"

definition generateBouncePads :: "nat \<Rightarrow> nat \<Rightarrow> nat \<Rightarrow> nat \<Rightarrow> real \<Rightarrow> real \<Rightarrow> point \<Rightarrow> goal_circle
    \<Rightarrow> hole list \<Rightarrow> nat \<Rightarrow> bouncePad list \<times> nat" where
  "generateBouncePads levelNum cols rows cellSize offsetX offsetY st gl hs seed =
    (if levelNum < 11 then ([], seed)
     else
       let numPads = min 4 ((levelNum - 10) div 12 + 1)
       in padsLoop numPads cols rows cellSize offsetX offsetY st gl hs [] seed)"

section \<open>generateSpeedZones\<close>

fun placeZone :: "nat \<Rightarrow> nat \<Rightarrow> nat \<Rightarrow> nat \<Rightarrow> real \<Rightarrow> real \<Rightarrow> speedZone list \<Rightarrow> nat
    \<Rightarrow> speedZone list \<times> nat" where
  "placeZone 0 cols rows cellSize offsetX offsetY zs seed = (zs, seed)"
| "placeZone (Suc k) cols rows cellSize offsetX offsetY zs seed =
    (let s1 = rng_next seed; col = rng_floor s1 (cols - 1);
         s2 = rng_next s1; row = rng_floor s2 (rows - 1);
         zx = offsetX + real col * real cellSize;
         zy = offsetY + real row * real cellSize
     in if \<exists>z \<in> set zs. dist2d zx zy (zone_x z) (zone_y z) < real cellSize * 2
        then placeZone k cols rows cellSize offsetX offsetY zs s2
        else
          let s3 = rng_next s2; isSlowZone = (rng_value s3 > 0.5)
          in (zs @ [\<lparr>zone_x = js_round zx, zone_y = js_round zy,
                     zone_width = real cellSize, zone_height = real cellSize,
                     zone_kind = (if isSlowZone then Slow else Fast),
                     zone_multiplier = (if isSlowZone then 0.4 else 2.0)\<rparr>], s3))"

fun zonesLoop :: "nat \<Rightarrow> nat \<Rightarrow> nat \<Rightarrow> nat \<Rightarrow> real \<Rightarrow> real \<Rightarrow> speedZone list \<Rightarrow> nat
    \<Rightarrow> speedZone list \<times> nat" where
  "zonesLoop 0 cols rows cellSize offsetX offsetY zs seed = (zs, seed)"
| "zonesLoop (Suc n) cols rows cellSize offsetX offsetY zs seed =
    (let (zs', seed') = placeZone 15 cols rows cellSize offsetX offsetY zs seed
     in zonesLoop n cols rows cellSize offsetX offsetY zs' seed')"

definition generateSpeedZones :: "nat \<Rightarrow> nat \<Rightarrow> nat \<Rightarrow> nat \<Rightarrow> real \<Rightarrow> real \<Rightarrow> nat
    \<Rightarrow> speedZone list \<times> nat" where
  "generateSpeedZones levelNum cols rows cellSize offsetX offsetY seed =
    (if levelNum < 16 then ([], seed)
     else
       let numZones = min 3 ((levelNum - 15) div 15 + 1)
       in zonesLoop numZones cols rows cellSize offsetX offsetY [] seed)"

section \<open>generateMovingWalls\<close>

text \<open>One moving wall per chosen candidate: three draws (range, speed, phase) each.\<close>

fun movingLoop :: "wall list \<Rightarrow> nat \<Rightarrow> movingWall list \<times> nat" where
  "movingLoop [] seed = ([], seed)"
| "movingLoop (w # ws) seed =
    (let isHorizontal = (wall_width w > wall_height w);
         s1 = rng_next seed; s2 = rng_next s1; s3 = rng_next s2;
         m = \<lparr>originalX = wall_x w, originalY = wall_y w,
              mw_width = wall_width w, mw_height = wall_height w,
              mw_direction = (if isHorizontal then Vertical else Horizontal),
              mw_range = 30 + real (rng_floor s1 30),
              mw_speed = 20 + real (rng_floor s2 30),
              mw_phase = rng_value s3 * pi * 2\<rparr>;
         (ms, seed') = movingLoop ws s3
     in (m # ms, seed'))"

definition generateMovingWalls :: "nat \<Rightarrow> wall list \<Rightarrow> nat \<Rightarrow> movingWall list \<times> nat" where
  "generateMovingWalls levelNum ws seed =
    (if levelNum < 21 then ([], seed)
     else
       let numMoving = min 3 ((levelNum - 20) div 15 + 1);
           candidateWalls = filter (\<lambda>w. wall_width w > 30 \<or> wall_height w > 30) ws
       in if length candidateWalls = 0 then ([], seed)
          else
            let (shuffled, seed1) = shuffle candidateWalls seed
            in movingLoop (take (min numMoving (length shuffled)) shuffled) seed1)"

section \<open>getLevelName\<close>

definition levelNames :: "string list" where
  "levelNames =
    [''First Steps'', ''Getting Started'', ''Easy Does It'', ''Rolling Along'', ''Simple Path'',
     ''Learning Curve'', ''Basic Maze'', ''Warm Up'', ''Foundation'', ''Ready Set Go'',
     ''The Journey'', ''Winding Road'', ''Twist & Turn'', ''Maze Runner'', ''Path Finder'',
     ''Navigate'', ''Explore'', ''Discovery'', ''Adventure'', ''Challenge Ahead'',
     ''Tight Squeeze'', ''Narrow Passage'', ''Compact'', ''Dense Path'', ''Crowded'',
     ''Complex Route'', ''Intricate'', ''Detailed'', ''Elaborate'', ''Sophisticated'',
     ''Precision'', ''Careful Steps'', ''Delicate'', ''Fine Control'', ''Steady'',
     ''Concentration'', ''Focus Zone'', ''Attention'', ''Mindful'', ''Deliberate'',
     ''Danger Zone'', ''Risk Taker'', ''Perilous'', ''Hazardous'', ''Treacherous'',
     ''Risky Business'', ''High Stakes'', ''Edge Walker'', ''Cliff Hanger'', ''Survivor'',
     ''Labyrinth'', ''Deep Maze'', ''Lost Ways'', ''Confusion'', ''Bewildering'',
     ''Perplexing'', ''Enigma'', ''Mystery'', ''Puzzle Box'', ''Riddle'',
     ''Time Trial'', ''Speed Demon'', ''Quick Reflex'', ''Fast Lane'', ''Rapid'',
     ''Swift'', ''Velocity'', ''Momentum'', ''Acceleration'', ''Turbo'',
     ''Ghost Walk'', ''Phase Shift'', ''Ethereal'', ''Phantom'', ''Spirit'',
     ''Spectral'', ''Astral'', ''Dimensional'', ''Void Walker'', ''Shadow'',
     ''Magnetic'', ''Attraction'', ''Pull Force'', ''Gravity Well'', ''Force Field'',
     ''Energy'', ''Power Core'', ''Dynamo'', ''Generator'', ''Reactor'',
     ''Ultimate'', ''Supreme'', ''Pinnacle'', ''Apex'', ''Zenith'',
     ''Summit'', ''Crown'', ''Throne'', ''Glory'', ''Legendary'']"

fun decimal :: "nat \<Rightarrow> string" where
  "decimal n =
    (if n < 10 then [char_of (48 + n)] else decimal (n div 10) @ [char_of (48 + n mod 10)])"

text \<open>\<open>names[levelNum - 1] || `Level ${levelNum}`\<close>.\<close>

definition getLevelName :: "nat \<Rightarrow> string" where
  "getLevelName levelNum =
    (if 1 \<le> levelNum \<and> levelNum - 1 < length levelNames then levelNames ! (levelNum - 1)
     else ''Level '' @ decimal levelNum)"

section \<open>generateLevel\<close>

text \<open>
  The first argument is \<open>this.seed\<close> as the previous call left it; \<open>random\<close> overwrites it.
  The result carries the seed the call leaves behind. \<open>levelMaze\<close> is the grid
  \<open>generateLevel\<close> builds on the way (the object it returns keeps only the rectangles).
\<close>

definition levelOffsetX :: "nat \<Rightarrow> real" where
  "levelOffsetX levelNum =
    (real (levelWidth levelNum) - real (levelCols levelNum) * real (levelCellSize levelNum)) / 2"

definition levelOffsetY :: "nat \<Rightarrow> real" where
  "levelOffsetY levelNum =
    (real (levelHeight levelNum) - real (levelRows levelNum) * real (levelCellSize levelNum)) / 2"

definition levelStart :: "nat \<Rightarrow> point" where
  "levelStart levelNum =
    \<lparr>px = levelOffsetX levelNum + 0 * real (levelCellSize levelNum) + real (levelCellSize levelNum) / 2,
     py = levelOffsetY levelNum + real (levelRows levelNum - 1) * real (levelCellSize levelNum)
            + real (levelCellSize levelNum) / 2\<rparr>"

definition levelGoal :: "nat \<Rightarrow> goal_circle" where
  "levelGoal levelNum =
    \<lparr>goal_x = levelOffsetX levelNum + real (levelCols levelNum - 1) * real (levelCellSize levelNum)
            + real (levelCellSize levelNum) / 2,
     goal_y = levelOffsetY levelNum + 0 * real (levelCellSize levelNum) + real (levelCellSize levelNum) / 2,
     goal_radius = real (max 14 (22 - levelNum div 25))\<rparr>"

definition levelMaze :: "nat \<Rightarrow> grid \<times> nat" where
  "levelMaze levelNum =
    generateMazeGrid (levelCols levelNum) (levelRows levelNum) (random (levelNum * 7919))"

definition generateLevel :: "nat \<Rightarrow> nat \<Rightarrow> (MazeDefinition \<times> nat) option" where
  "generateLevel this_seed levelNum =
    (let d = getDifficulty levelNum;
         w = levelWidth levelNum; h = levelHeight levelNum;
         cellSize = levelCellSize levelNum;
         cols = levelCols levelNum; rows = levelRows levelNum;
         (maze, seed1) = levelMaze levelNum;
         ws = mazeToWalls maze cols rows cellSize (real w) (real h);
         radius = max 6 (12 - levelNum div 20);
         offsetX = levelOffsetX levelNum; offsetY = levelOffsetY levelNum;
         st = levelStart levelNum; gl = levelGoal levelNum;
         (hs, seed2) = generateHoles cols rows cellSize offsetX offsetY d st gl seed1
     in case generateCoins levelNum maze cols rows cellSize offsetX offsetY st gl seed2 of
          None \<Rightarrow> None
        | Some (cs, seed3) \<Rightarrow>
           (let (ls, seed4) = generateExtraLives levelNum maze cols rows cellSize offsetX offsetY
                                st gl cs hs seed3;
                (ps, seed5) = generatePowerups levelNum cols rows cellSize offsetX offsetY st gl hs seed4;
                (bs, seed6) = generateBouncePads levelNum cols rows cellSize offsetX offsetY st gl hs seed5;
                (zs, seed7) = generateSpeedZones levelNum cols rows cellSize offsetX offsetY seed6;
                (ms, seed8) = generateMovingWalls levelNum ws seed7
            in Some (\<lparr>level_id = levelNum, level_name = getLevelName levelNum,
                      level_difficulty = dname d,
                      width = real w, height = real h, ballRadius = real radius,
                      start = Some st, goal = Some gl,
                      level_walls = ws, holes = hs, coins = cs, extraLives = ls,
                      powerups = ps, bouncePads = bs, speedZones = zs, movingWalls = ms,
                      starTimes = levelStarTimes levelNum, generated = True\<rparr>, seed8)))"

text \<open>\<open>generateAllLevels\<close>: levels 1 to 100 on the same generator object.\<close>

fun generateLevels :: "nat list \<Rightarrow> nat \<Rightarrow> (MazeDefinition list \<times> nat) option" where
  "generateLevels [] seed = Some ([], seed)"
| "generateLevels (i # is) seed =
    (case generateLevel seed i of
       None \<Rightarrow> None
     | Some (lvl, seed') \<Rightarrow>
        (case generateLevels is seed' of
           None \<Rightarrow> None
         | Some (lvls, seed'') \<Rightarrow> Some (lvl # lvls, seed'')))"

definition generateAllLevels :: "nat \<Rightarrow> (MazeDefinition list \<times> nat) option" where
  "generateAllLevels this_seed = generateLevels [1..<101] this_seed"

section \<open>GameEngine.js: state\<close>

text \<open>
  The engine object, without its rendering, audio and particle fields. What the engine
  reads from its collaborators and from the clocks is passed in: the level table of the
  level manager, the tilt, the sensitivity, the upgrade effects, \<open>Math.random()\<close>,
  \<open>performance.now()\<close> and \<open>Date.now()\<close>. Callbacks to the UI are left out.

  \<open>setTimeout\<close> and \<open>setInterval\<close> are modelled by what they leave pending:
  \<open>timeouts\<close> lists the callbacks waiting to fire, \<open>timerInterval\<close> and
  \<open>animationFrameId\<close> say whether the 100 ms timer and a frame callback are scheduled.
\<close>

datatype js_error = TypeError

record ball_state =
  ball_x :: real
  ball_y :: real
  vx :: real
  vy :: real
  radius :: real
  mass :: real
  friction :: real
  bounce :: real

record activePowerup =
  active :: bool
  endTime :: real
  timer :: nat

record runtimeWall =
  wall_def :: movingWall
  currentX :: real
  currentY :: real
  wall_time :: real

record runtimePowerup =
  powerup_def :: powerup
  collected :: bool

datatype timeout_action = ExpirePowerup powerup_type | DeactivateTimeWarp

record timeout =
  timeout_id :: nat
  timeout_due :: real
  timeout_cb :: timeout_action

record engine =
  isRunning :: bool
  isPaused :: bool
  currentLevel :: "MazeDefinition option"
  levelIndex :: int
  ball :: ball_state
  gravity :: real
  maxSpeed :: real
  startTime :: real
  elapsedTime :: real
  timerInterval :: bool
  timeScale :: real
  timeWarpActive :: bool
  timeWarpUsed :: bool
  timeWarpDuration :: real
  animationFrameId :: bool
  lastFrameTime :: real
  levelCoins :: "point list"
  coinRadius :: real
  coinsCollectedThisLevel :: nat
  levelExtraLives :: "point list"
  extraLifeRadius :: real
  levelPowerups :: "runtimePowerup list"
  powerupRadius :: real
  activePowerups :: "powerup_type \<Rightarrow> activePowerup option"
  levelBouncePads :: "bouncePad list"
  levelSpeedZones :: "speedZone list"
  levelMovingWalls :: "runtimeWall list"
  timeouts :: "timeout list"
  nextTimeoutId :: nat

text \<open>The constructor.\<close>

definition new_engine :: engine where
  "new_engine =
    \<lparr>isRunning = False, isPaused = False, currentLevel = None, levelIndex = 0,
     ball = \<lparr>ball_x = 0, ball_y = 0, vx = 0, vy = 0, radius = 15, mass = 1,
             friction = 0.98, bounce = 0.75\<rparr>,
     gravity = 0.5, maxSpeed = 12, startTime = 0, elapsedTime = 0, timerInterval = False,
     timeScale = 1.0, timeWarpActive = False, timeWarpUsed = False, timeWarpDuration = 3000,
     animationFrameId = False, lastFrameTime = 0,
     levelCoins = [], coinRadius = 12, coinsCollectedThisLevel = 0,
     levelExtraLives = [], extraLifeRadius = 14,
     levelPowerups = [], powerupRadius = 14, activePowerups = (\<lambda>ty. None),
     levelBouncePads = [], levelSpeedZones = [], levelMovingWalls = [],
     timeouts = [], nextTimeoutId = 0\<rparr>"

section \<open>Loading, starting, pausing\<close>

text \<open>\<open>currentLevel.ballRadius || 15\<close>.\<close>

definition ballRadius_or_default :: "MazeDefinition \<Rightarrow> real" where
  "ballRadius_or_default L = (if ballRadius L = 0 then 15 else ballRadius L)"

definition fresh_powerups :: "MazeDefinition \<Rightarrow> runtimePowerup list" where
  "fresh_powerups L = map (\<lambda>p. \<lparr>powerup_def = p, collected = False\<rparr>) (powerups L)"

definition fresh_movingWalls :: "MazeDefinition \<Rightarrow> runtimeWall list" where
  "fresh_movingWalls L =
    map (\<lambda>w. \<lparr>wall_def = w, currentX = originalX w, currentY = originalY w, wall_time = 0\<rparr>)
      (movingWalls L)"

text \<open>
  \<open>resetBall\<close> reads \<open>start.x\<close> first: a level without \<open>start\<close> raises a TypeError there.
\<close>

definition resetBall :: "engine \<Rightarrow> js_error + engine" where
  "resetBall e =
    (case currentLevel e of
       None \<Rightarrow> Inr e
     | Some L \<Rightarrow>
        (case start L of
           None \<Rightarrow> Inl TypeError
         | Some st \<Rightarrow>
            Inr (e\<lparr>ball := (ball e)\<lparr>ball_x := px st, ball_y := py st, vx := 0, vy := 0,
                                  radius := ballRadius_or_default L\<rparr>,
                   levelCoins := coins L,
                   coinsCollectedThisLevel := 0,
                   levelExtraLives := extraLives L,
                   levelPowerups := fresh_powerups L,
                   activePowerups := (\<lambda>ty. None),
                   levelMovingWalls := fresh_movingWalls L\<rparr>)))"

text \<open>
  \<open>loadLevel\<close>: the only check is \<open>if (!this.currentLevel)\<close>. \<open>getLevel\<close> is the level
  manager's lookup (\<open>null\<close> outside the table).
\<close>

definition loadLevel :: "(int \<Rightarrow> MazeDefinition option) \<Rightarrow> int \<Rightarrow> engine
    \<Rightarrow> js_error + (bool \<times> engine)" where
  "loadLevel getLevel idx e =
    (let e0 = e\<lparr>levelIndex := idx, currentLevel := getLevel idx\<rparr>
     in case currentLevel e0 of
          None \<Rightarrow> Inr (False, e0)
        | Some L \<Rightarrow>
           (let e1 = e0\<lparr>timeScale := 1.0, timeWarpActive := False, timeWarpUsed := False\<rparr>
            in case resetBall e1 of
                 Inl err \<Rightarrow> Inl err
               | Inr e2 \<Rightarrow>
                  Inr (True,
                       e2\<lparr>levelCoins := coins L,
                          coinsCollectedThisLevel := 0,
                          levelExtraLives := extraLives L,
                          levelPowerups := fresh_powerups L,
                          levelBouncePads := bouncePads L,
                          levelSpeedZones := speedZones L,
                          levelMovingWalls := fresh_movingWalls L,
                          activePowerups := (\<lambda>ty. None)\<rparr>)))"

text \<open>\<open>start\<close> reads \<open>performance.now()\<close> twice: for \<open>startTime\<close> and for \<open>lastFrameTime\<close>.\<close>

definition start_engine :: "real \<Rightarrow> real \<Rightarrow> engine \<Rightarrow> engine" where
  "start_engine now1 now2 e =
    (if isRunning e then e
     else e\<lparr>isRunning := True, isPaused := False, elapsedTime := 0, startTime := now1,
            timerInterval := True, lastFrameTime := now2, animationFrameId := True\<rparr>)"

definition pause :: "engine \<Rightarrow> engine" where
  "pause e =
    (if \<not> isRunning e \<or> isPaused e then e
     else e\<lparr>isPaused := True, timerInterval := False, animationFrameId := False\<rparr>)"

definition resume :: "real \<Rightarrow> engine \<Rightarrow> engine" where
  "resume now e =
    (if \<not> isRunning e \<or> \<not> isPaused e then e
     else e\<lparr>isPaused := False, timerInterval := True, lastFrameTime := now,
            animationFrameId := True\<rparr>)"

definition stop :: "engine \<Rightarrow> engine" where
  "stop e = e\<lparr>isRunning := False, isPaused := False, timerInterval := False,
               animationFrameId := False\<rparr>"

definition restart :: "real \<Rightarrow> real \<Rightarrow> engine \<Rightarrow> js_error + engine" where
  "restart now1 now2 e =
    (case resetBall (stop e) of
       Inl err \<Rightarrow> Inl err
     | Inr e1 \<Rightarrow> Inr (start_engine now1 now2 e1))"

text \<open>The callback of \<open>startTimer\<close>'s \<open>setInterval\<close>; it runs only while the timer is set.\<close>

definition timerTick :: "real \<Rightarrow> engine \<Rightarrow> engine" where
  "timerTick now e = (if timerInterval e then e\<lparr>elapsedTime := now - startTime e\<rparr> else e)"

section \<open>Time warp and stars\<close>

text \<open>\<open>slowMotion\<close> is \<open>upgradeManager.getActiveEffects().slowMotion\<close>.\<close>

definition add_timeout :: "real \<Rightarrow> timeout_action \<Rightarrow> engine \<Rightarrow> engine" where
  "add_timeout due cb e =
    e\<lparr>timeouts := timeouts e @ [\<lparr>timeout_id = nextTimeoutId e, timeout_due = due, timeout_cb = cb\<rparr>],
      nextTimeoutId := nextTimeoutId e + 1\<rparr>"

definition activateTimeWarp :: "bool \<Rightarrow> real \<Rightarrow> engine \<Rightarrow> bool \<times> engine" where
  "activateTimeWarp slowMotion now e =
    (if \<not> slowMotion then (False, e)
     else if timeWarpUsed e then (False, e)
     else if timeWarpActive e then (False, e)
     else (True, add_timeout (now + timeWarpDuration e) DeactivateTimeWarp
                   (e\<lparr>timeWarpActive := True, timeWarpUsed := True, timeScale := 0.4\<rparr>)))"

definition deactivateTimeWarp :: "engine \<Rightarrow> engine" where
  "deactivateTimeWarp e = e\<lparr>timeWarpActive := False, timeScale := 1.0\<rparr>"


text \<open>
  \<open>calculateStars\<close>, on \<open>this.currentLevel?.starTimes\<close>: a missing level or fewer than three
  thresholds give one star.
\<close>

definition calculateStars :: "MazeDefinition option \<Rightarrow> real \<Rightarrow> nat" where
  "calculateStars lvl t =
    (case lvl of
       None \<Rightarrow> 1
     | Some L \<Rightarrow>
        (let targets = starTimes L
         in if length targets < 3 then 1
            else if t \<le> real_of_int (targets ! 2) then 3
            else if t \<le> real_of_int (targets ! 1) then 2
            else if t \<le> real_of_int (targets ! 0) then 1
            else 1))"

section \<open>The physics step\<close>

text \<open>What one call of \<open>update\<close> reads from outside the engine.\<close>

record frame_input =
  tilt_x :: real
  tilt_y :: real
  stored_sensitivity :: real
  random1 :: real
  random2 :: real
  perfNow :: real
  dateNow :: real
  magnetRadius :: real

record collision =
  col_x :: bool
  col_y :: bool
  col_newX :: real
  col_newY :: real

text \<open>
  The body of the two \<open>for\<close> loops of \<open>checkWallCollisions\<close>, on a rectangle given by its
  four edges (left, right, top, bottom); \<open>bx\<close>, \<open>byy\<close> and \<open>r\<close> are the ball's position and radius.
\<close>

definition hitRect :: "real \<Rightarrow> real \<Rightarrow> real \<Rightarrow> real \<Rightarrow> real \<Rightarrow> real \<Rightarrow> real \<Rightarrow> real \<Rightarrow> real
    \<Rightarrow> collision \<Rightarrow> collision" where
  "hitRect newX newY bx byy r wl wr wt wb res =
    (let nearestX = max wl (min newX wr);
         nearestY = max wt (min byy wb);
         distX = newX - nearestX;
         distY = byy - nearestY;
         distanceX = sqrt (distX\<^sup>2 + distY\<^sup>2);
         res1 = (if distanceX < r then
                   res\<lparr>col_x := True,
                       col_newX := (if newX < wl then wl - r
                                    else if newX > wr then wr + r
                                    else col_newX res)\<rparr>
                 else res);
         nearestX2 = max wl (min bx wr);
         nearestY2 = max wt (min newY wb);
         distX2 = bx - nearestX2;
         distY2 = newY - nearestY2;
         distanceY = sqrt (distX2\<^sup>2 + distY2\<^sup>2)
     in if distanceY < r then
          res1\<lparr>col_y := True,
                col_newY := (if newY < wt then wt - r
                             else if newY > wb then wb + r
                             else col_newY res1)\<rparr>
        else res1)"

definition checkWallCollisions :: "real \<Rightarrow> real \<Rightarrow> engine \<Rightarrow> js_error + collision" where
  "checkWallCollisions newX newY e =
    (case currentLevel e of
       None \<Rightarrow> Inl TypeError
     | Some L \<Rightarrow>
        (let b = ball e; r = radius b;
             res0 = \<lparr>col_x = False, col_y = False, col_newX = ball_x b, col_newY = ball_y b\<rparr>;
             res1 = fold (\<lambda>w. hitRect newX newY (ball_x b) (ball_y b) r
                               (wall_x w) (wall_x w + wall_width w)
                               (wall_y w) (wall_y w + wall_height w))
                      (level_walls L) res0;
             res2 = fold (\<lambda>w. hitRect newX newY (ball_x b) (ball_y b) r
                               (currentX w) (currentX w + mw_width (wall_def w))
                               (currentY w) (currentY w + mw_height (wall_def w)))
                      (levelMovingWalls e) res1;
             mazeWidth = width L; mazeHeight = height L;
             res3 = (if newX - r < 0 then res2\<lparr>col_x := True, col_newX := r\<rparr>
                     else if newX + r > mazeWidth then res2\<lparr>col_x := True, col_newX := mazeWidth - r\<rparr>
                     else res2)
         in Inr (if newY - r < 0 then res3\<lparr>col_y := True, col_newY := r\<rparr>
                 else if newY + r > mazeHeight then res3\<lparr>col_y := True, col_newY := mazeHeight - r\<rparr>
                 else res3)))"

text \<open>
  Lines 404 to 441 of \<open>update\<close>: tilt, friction, speed clamp and the candidate position.
  \<open>scaledDelta\<close> is computed and, as in the source, not used afterwards.
\<close>

definition integrate :: "real \<Rightarrow> frame_input \<Rightarrow> engine \<Rightarrow> engine \<times> real \<times> real" where
  "integrate deltaTime inp e =
    (let scaledDelta = deltaTime * timeScale e;
         sensitivity = (if stored_sensitivity inp = 0 then 1 else stored_sensitivity inp);
         ax = tilt_x inp * gravity e * sensitivity * 60 * deltaTime;
         ay = tilt_y inp * gravity e * sensitivity * 60 * deltaTime;
         b1 = (ball e)\<lparr>vx := vx (ball e) + ax, vy := vy (ball e) + ay\<rparr>;
         b2 = b1\<lparr>vx := vx b1 * (friction b1 powr (deltaTime * 60)),
                 vy := vy b1 * (friction b1 powr (deltaTime * 60))\<rparr>;
         speed = sqrt ((vx b2)\<^sup>2 + (vy b2)\<^sup>2);
         b3 = (if speed > maxSpeed e
               then b2\<lparr>vx := (vx b2 / speed) * maxSpeed e, vy := (vy b2 / speed) * maxSpeed e\<rparr>
               else b2);
         newX = ball_x b3 + vx b3 * deltaTime * 60;
         newY = ball_y b3 + vy b3 * deltaTime * 60
     in (e\<lparr>ball := b3\<rparr>, newX, newY))"

text \<open>Lines 444 to 482: the response to the collision flags, the x axis first.\<close>

definition bounceX :: "collision \<Rightarrow> real \<Rightarrow> real \<Rightarrow> ball_state \<Rightarrow> ball_state" where
  "bounceX c newX rnd b =
    (if col_x c then
       (let b1 = b\<lparr>vx := vx b * (- bounce b * 1.2)\<rparr>;
            b2 = b1\<lparr>vy := vy b1 + (rnd - 0.5) * 2\<rparr>
        in b2\<lparr>ball_x := col_newX c\<rparr>)
     else b\<lparr>ball_x := newX\<rparr>)"

definition bounceY :: "collision \<Rightarrow> real \<Rightarrow> real \<Rightarrow> ball_state \<Rightarrow> ball_state" where
  "bounceY c newY rnd b =
    (if col_y c then
       (let b1 = b\<lparr>vy := vy b * (- bounce b * 1.2)\<rparr>;
            b2 = b1\<lparr>vx := vx b1 + (rnd - 0.5) * 2\<rparr>
        in b2\<lparr>ball_y := col_newY c\<rparr>)
     else b\<lparr>ball_y := newY\<rparr>)"

definition respond :: "collision \<Rightarrow> real \<Rightarrow> real \<Rightarrow> frame_input \<Rightarrow> engine \<Rightarrow> engine" where
  "respond c newX newY inp e =
    e\<lparr>ball := bounceY c newY (random2 inp) (bounceX c newX (random1 inp) (ball e))\<rparr>"

section \<open>Hazards and pickups\<close>

definition checkHoleCollision :: "MazeDefinition \<Rightarrow> engine \<Rightarrow> bool" where
  "checkHoleCollision L e =
    (\<exists>h \<in> set (holes L).
       sqrt ((ball_x (ball e) - hole_x h)\<^sup>2 + (ball_y (ball e) - hole_y h)\<^sup>2) < hole_radius h * 0.85)"

text \<open>\<open>checkGoalCollision\<close> reads \<open>goal.x\<close>: a level without \<open>goal\<close> raises a TypeError.\<close>

definition checkGoalCollision :: "MazeDefinition \<Rightarrow> engine \<Rightarrow> js_error + bool" where
  "checkGoalCollision L e =
    (case goal L of
       None \<Rightarrow> Inl TypeError
     | Some g \<Rightarrow>
        Inr (sqrt ((ball_x (ball e) - goal_x g)\<^sup>2 + (ball_y (ball e) - goal_y g)\<^sup>2) < goal_radius g))"

definition coinStep :: "engine \<Rightarrow> real \<Rightarrow> point \<Rightarrow> point list" where
  "coinStep e magnet_r coin =
    (let dx = ball_x (ball e) - px coin;
         dy = ball_y (ball e) - py coin;
         distance = sqrt (dx\<^sup>2 + dy\<^sup>2);
         coin' = (if magnet_r > 0 \<and> distance < magnet_r \<and> distance > radius (ball e) + coinRadius e
                  then coin\<lparr>px := px coin + dx / distance * 0.15 * (magnet_r - distance),
                            py := py coin + dy / distance * 0.15 * (magnet_r - distance)\<rparr>
                  else coin)
     in if distance < radius (ball e) + coinRadius e then [] else [coin'])"

definition checkCoinCollision :: "real \<Rightarrow> engine \<Rightarrow> engine" where
  "checkCoinCollision magnet_r e =
    (let kept = concat (map (coinStep e magnet_r) (levelCoins e))
     in e\<lparr>levelCoins := kept,
          coinsCollectedThisLevel :=
            coinsCollectedThisLevel e + (length (levelCoins e) - length kept)\<rparr>)"

definition checkExtraLifeCollision :: "engine \<Rightarrow> engine" where
  "checkExtraLifeCollision e =
    e\<lparr>levelExtraLives :=
        filter (\<lambda>life. \<not> sqrt ((ball_x (ball e) - px life)\<^sup>2 + (ball_y (ball e) - py life)\<^sup>2)
                          < radius (ball e) + extraLifeRadius e)
          (levelExtraLives e)\<rparr>"

definition powerupDuration :: "powerup_type \<Rightarrow> real" where
  "powerupDuration ty =
    (case ty of speed_boost \<Rightarrow> 3000 | slow_motion \<Rightarrow> 4000 | shield \<Rightarrow> 5000 | magnet \<Rightarrow> 6000
     | ghost \<Rightarrow> 2500 | shrink \<Rightarrow> 5000 | time_freeze \<Rightarrow> 3000 | double_coins \<Rightarrow> 8000)"

text \<open>
  \<open>activatePowerup\<close>: the expiry is a \<open>setTimeout\<close> callback, due \<open>duration\<close> after the
  call; the timer of an earlier activation of the same type is cleared.
\<close>

definition activatePowerup :: "powerup_type \<Rightarrow> real \<Rightarrow> engine \<Rightarrow> engine" where
  "activatePowerup ty now e =
    (let duration = powerupDuration ty;
         e1 = (case activePowerups e ty of
                 Some ap \<Rightarrow> e\<lparr>timeouts := filter (\<lambda>t. timeout_id t \<noteq> timer ap) (timeouts e)\<rparr>
               | None \<Rightarrow> e);
         e2 = e1\<lparr>activePowerups := (activePowerups e1)
                   (ty := Some \<lparr>active = True, endTime = now + duration, timer = nextTimeoutId e1\<rparr>)\<rparr>
     in add_timeout (now + duration) (ExpirePowerup ty) e2)"

text \<open>The powerups are visited from the last to the first, as the source's loop does.\<close>

fun powerupSteps :: "real \<Rightarrow> runtimePowerup list \<Rightarrow> engine \<Rightarrow> runtimePowerup list \<times> engine" where
  "powerupSteps now [] e = ([], e)"
| "powerupSteps now (p # ps) e =
    (let (ps', e1) = powerupSteps now ps e;
         d = powerup_def p;
         dist = sqrt ((ball_x (ball e1) - pu_x d) * (ball_x (ball e1) - pu_x d)
                      + (ball_y (ball e1) - pu_y d) * (ball_y (ball e1) - pu_y d))
     in if collected p then (p # ps', e1)
        else if dist < radius (ball e1) + pu_radius d
        then (p\<lparr>collected := True\<rparr> # ps', activatePowerup (pu_type d) now e1)
        else (p # ps', e1))"

definition checkPowerupCollision :: "real \<Rightarrow> engine \<Rightarrow> engine" where
  "checkPowerupCollision now e =
    (let (ps, e1) = powerupSteps now (levelPowerups e) e in e1\<lparr>levelPowerups := ps\<rparr>)"

definition padStep :: "bouncePad \<Rightarrow> ball_state \<Rightarrow> ball_state" where
  "padStep pad b =
    (let padLeft = pad_x pad - pad_width pad / 2;
         padRight = pad_x pad + pad_width pad / 2;
         padTop = pad_y pad - pad_height pad / 2;
         padBottom = pad_y pad + pad_height pad / 2
     in if ball_x b + radius b > padLeft \<and> ball_x b - radius b < padRight \<and>
           ball_y b + radius b > padTop \<and> ball_y b - radius b < padBottom
        then
          (let force = (if pad_force pad = 0 then 15 else pad_force pad)
           in case pad_dir pad of
                Up \<Rightarrow> b\<lparr>vy := - force\<rparr>
              | Down \<Rightarrow> b\<lparr>vy := force\<rparr>
              | Left \<Rightarrow> b\<lparr>vx := - force\<rparr>
              | Right \<Rightarrow> b\<lparr>vx := force\<rparr>)
        else b)"

definition checkBouncePadCollision :: "engine \<Rightarrow> engine" where
  "checkBouncePadCollision e = e\<lparr>ball := fold padStep (levelBouncePads e) (ball e)\<rparr>"

definition zoneStep :: "speedZone \<Rightarrow> ball_state \<Rightarrow> ball_state" where
  "zoneStep zone b =
    (if ball_x b > zone_x zone \<and> ball_x b < zone_x zone + zone_width zone \<and>
        ball_y b > zone_y zone \<and> ball_y b < zone_y zone + zone_height zone
     then (case zone_kind zone of
             Fast \<Rightarrow> b\<lparr>vx := vx b * 1.02, vy := vy b * 1.02\<rparr>
           | Slow \<Rightarrow> b\<lparr>vx := vx b * 0.95, vy := vy b * 0.95\<rparr>)
     else b)"

definition applySpeedZoneEffects :: "engine \<Rightarrow> engine" where
  "applySpeedZoneEffects e = e\<lparr>ball := fold zoneStep (levelSpeedZones e) (ball e)\<rparr>"

text \<open>\<open>updateMovingWalls\<close>: the position is a function of the clock \<open>performance.now()\<close>.\<close>

definition moveWall :: "real \<Rightarrow> runtimeWall \<Rightarrow> runtimeWall" where
  "moveWall now w =
    (let gameTime = now / 1000;
         d = wall_def w;
         offset = sin (gameTime * (mw_speed d / 50) + mw_phase d) * mw_range d
     in case mw_direction d of
          Horizontal \<Rightarrow> w\<lparr>currentX := originalX d + offset\<rparr>
        | Vertical \<Rightarrow> w\<lparr>currentY := originalY d + offset\<rparr>)"

definition updateMovingWalls :: "real \<Rightarrow> engine \<Rightarrow> engine" where
  "updateMovingWalls now e = e\<lparr>levelMovingWalls := map (moveWall now) (levelMovingWalls e)\<rparr>"

definition isPowerupActive :: "powerup_type \<Rightarrow> engine \<Rightarrow> bool" where
  "isPowerupActive ty e = (case activePowerups e ty of Some ap \<Rightarrow> active ap | None \<Rightarrow> False)"

definition magnetPull :: "engine \<Rightarrow> point \<Rightarrow> point" where
  "magnetPull e coin =
    (let magnetRange = 100;
         dx = ball_x (ball e) - px coin;
         dy = ball_y (ball e) - py coin;
         dist = sqrt (dx * dx + dy * dy)
     in if dist < magnetRange \<and> dist > 0
        then (let force = 0.1 * (1 - dist / magnetRange)
              in coin\<lparr>px := px coin + dx * force, py := py coin + dy * force\<rparr>)
        else coin)"

definition updateActivePowerups :: "MazeDefinition \<Rightarrow> engine \<Rightarrow> engine" where
  "updateActivePowerups L e =
    (let e1 = (if isPowerupActive slow_motion e then e\<lparr>timeScale := 0.4\<rparr>
               else if isPowerupActive speed_boost e then e
               else e\<lparr>timeScale := 1.0\<rparr>);
         e2 = (if isPowerupActive magnet e1
               then e1\<lparr>levelCoins := map (magnetPull e1) (levelCoins e1)\<rparr> else e1)
     in if isPowerupActive shrink e2
        then e2\<lparr>ball := (ball e2)\<lparr>radius := ballRadius_or_default L * 0.6\<rparr>\<rparr>
        else e2\<lparr>ball := (ball e2)\<lparr>radius := ballRadius_or_default L\<rparr>\<rparr>)"

section \<open>update and the frame callback\<close>

text \<open>\<open>handleWin\<close> and \<open>handleLose\<close> stop the engine; their calls to storage, audio and the UI are left out.\<close>

definition update :: "real \<Rightarrow> frame_input \<Rightarrow> engine \<Rightarrow> js_error + engine" where
  "update deltaTime inp e =
    (let (e1, newX, newY) = integrate deltaTime inp e
     in case checkWallCollisions newX newY e1 of
          Inl err \<Rightarrow> Inl err
        | Inr c \<Rightarrow>
           (let e2 = respond c newX newY inp e1
            in case currentLevel e2 of
                 None \<Rightarrow> Inl TypeError
               | Some L \<Rightarrow>
                  if checkHoleCollision L e2 then Inr (stop e2)
                  else
                    (case checkGoalCollision L e2 of
                       Inl err \<Rightarrow> Inl err
                     | Inr True \<Rightarrow> Inr (stop e2)
                     | Inr False \<Rightarrow>
                        Inr (updateActivePowerups L
                              (updateMovingWalls (perfNow inp)
                                (applySpeedZoneEffects
                                  (checkBouncePadCollision
                                    (checkPowerupCollision (dateNow inp)
                                      (checkExtraLifeCollision
                                        (checkCoinCollision (magnetRadius inp) e2))))))))))"

text \<open>
  \<open>gameLoop\<close>, the \<open>requestAnimationFrame\<close> callback: nothing happens unless the engine is
  running and not paused; the next frame is requested after \<open>update\<close> and \<open>render\<close> return.
\<close>

definition gameLoop :: "real \<Rightarrow> frame_input \<Rightarrow> engine \<Rightarrow> js_error + engine" where
  "gameLoop timestamp inp e =
    (if \<not> isRunning e \<or> isPaused e then Inr e
     else
       (let deltaTime = min ((timestamp - lastFrameTime e) / 1000) 0.05;
            e1 = e\<lparr>lastFrameTime := timestamp\<rparr>
        in case update deltaTime inp e1 of
             Inl err \<Rightarrow> Inl err
           | Inr e2 \<Rightarrow> Inr (e2\<lparr>animationFrameId := True\<rparr>)))"

text \<open>
  A pending \<open>setTimeout\<close> callback fires once its delay has passed, whatever the engine's
  state: neither \<open>pause\<close> nor \<open>stop\<close> nor \<open>resetBall\<close> clears it.
\<close>

definition runTimeout :: "timeout_action \<Rightarrow> engine \<Rightarrow> engine" where
  "runTimeout cb e =
    (case cb of
       ExpirePowerup ty \<Rightarrow>
        (case activePowerups e ty of
           Some ap \<Rightarrow> e\<lparr>activePowerups := (activePowerups e)(ty := Some (ap\<lparr>active := False\<rparr>))\<rparr>
         | None \<Rightarrow> e)
     | DeactivateTimeWarp \<Rightarrow> deactivateTimeWarp e)"

definition fireTimeout :: "real \<Rightarrow> nat \<Rightarrow> engine \<Rightarrow> engine" where
  "fireTimeout now tid e =
    (case filter (\<lambda>t. timeout_id t = tid \<and> timeout_due t \<le> now) (timeouts e) of
       [] \<Rightarrow> e
     | t # ts \<Rightarrow> runTimeout (timeout_cb t) (e\<lparr>timeouts := filter (\<lambda>t. timeout_id t \<noteq> tid) (timeouts e)\<rparr>))"

section \<open>The time scale in the physics step\<close>

lemma integrate_timeScale:
  "integrate dt inp (e\<lparr>timeScale := s\<rparr>) =
     (case integrate dt inp e of (e', nx, ny) \<Rightarrow> (e'\<lparr>timeScale := s\<rparr>, nx, ny))"
  by (simp add: integrate_def Let_def)

lemma checkWallCollisions_timeScale:
  "checkWallCollisions nx ny (e\<lparr>timeScale := s\<rparr>) = checkWallCollisions nx ny e"
  by (simp add: checkWallCollisions_def split: option.split)

lemma respond_timeScale:
  "respond c nx ny inp (e\<lparr>timeScale := s\<rparr>) = (respond c nx ny inp e)\<lparr>timeScale := s\<rparr>"
  by (simp add: respond_def)

lemma checkHoleCollision_timeScale:
  "checkHoleCollision L (e\<lparr>timeScale := s\<rparr>) = checkHoleCollision L e"
  by (simp add: checkHoleCollision_def)

lemma checkGoalCollision_timeScale:
  "checkGoalCollision L (e\<lparr>timeScale := s\<rparr>) = checkGoalCollision L e"
  by (simp add: checkGoalCollision_def split: option.split)

lemma coinStep_timeScale: "coinStep (e\<lparr>timeScale := s\<rparr>) = coinStep e"
  by (intro ext) (simp add: coinStep_def)

lemma checkCoinCollision_timeScale:
  "checkCoinCollision m (e\<lparr>timeScale := s\<rparr>) = (checkCoinCollision m e)\<lparr>timeScale := s\<rparr>"
  by (simp add: checkCoinCollision_def coinStep_timeScale Let_def)

lemma checkExtraLifeCollision_timeScale:
  "checkExtraLifeCollision (e\<lparr>timeScale := s\<rparr>) = (checkExtraLifeCollision e)\<lparr>timeScale := s\<rparr>"
  by (simp add: checkExtraLifeCollision_def)

lemma add_timeout_timeScale:
  "add_timeout d cb (e\<lparr>timeScale := s\<rparr>) = (add_timeout d cb e)\<lparr>timeScale := s\<rparr>"
  by (simp add: add_timeout_def)

lemma activatePowerup_timeScale:
  "activatePowerup ty now (e\<lparr>timeScale := s\<rparr>) = (activatePowerup ty now e)\<lparr>timeScale := s\<rparr>"
  by (simp add: activatePowerup_def add_timeout_def Let_def split: option.split)

lemma powerupSteps_timeScale:
  "powerupSteps now ps (e\<lparr>timeScale := s\<rparr>) =
     (case powerupSteps now ps e of (ps', e') \<Rightarrow> (ps', e'\<lparr>timeScale := s\<rparr>))"
  by (induction ps) (auto simp: Let_def activatePowerup_timeScale split: prod.split)

lemma checkPowerupCollision_timeScale:
  "checkPowerupCollision now (e\<lparr>timeScale := s\<rparr>) = (checkPowerupCollision now e)\<lparr>timeScale := s\<rparr>"
  by (simp add: checkPowerupCollision_def powerupSteps_timeScale split: prod.split)

lemma checkBouncePadCollision_timeScale:
  "checkBouncePadCollision (e\<lparr>timeScale := s\<rparr>) = (checkBouncePadCollision e)\<lparr>timeScale := s\<rparr>"
  by (simp add: checkBouncePadCollision_def)

lemma applySpeedZoneEffects_timeScale:
  "applySpeedZoneEffects (e\<lparr>timeScale := s\<rparr>) = (applySpeedZoneEffects e)\<lparr>timeScale := s\<rparr>"
  by (simp add: applySpeedZoneEffects_def)

lemma updateMovingWalls_timeScale:
  "updateMovingWalls now (e\<lparr>timeScale := s\<rparr>) = (updateMovingWalls now e)\<lparr>timeScale := s\<rparr>"
  by (simp add: updateMovingWalls_def)

lemma magnetPull_timeScale: "magnetPull (e\<lparr>timeScale := s\<rparr>) = magnetPull e"
  by (intro ext) (simp add: magnetPull_def)

lemma ball_updateActivePowerups_timeScale:
  "ball (updateActivePowerups L (e\<lparr>timeScale := s\<rparr>)) = ball (updateActivePowerups L e)"
  by (simp add: updateActivePowerups_def isPowerupActive_def Let_def)

lemma ball_stop_timeScale: "ball (stop (e\<lparr>timeScale := s\<rparr>)) = ball (stop e)"
  by (simp add: stop_def)

lemmas stage_timeScale = checkWallCollisions_timeScale respond_timeScale
  checkHoleCollision_timeScale checkGoalCollision_timeScale checkCoinCollision_timeScale
  checkExtraLifeCollision_timeScale checkPowerupCollision_timeScale
  checkBouncePadCollision_timeScale applySpeedZoneEffects_timeScale updateMovingWalls_timeScale
  ball_updateActivePowerups_timeScale ball_stop_timeScale

lemma update_ball_timeScale:
  "map_sum id ball (update dt inp (e\<lparr>timeScale := s\<rparr>)) = map_sum id ball (update dt inp e)"
  by (auto simp: update_def integrate_timeScale stage_timeScale Let_def
      split: prod.split sum.split option.split bool.split)

text \<open>
  C3. The claim: with a time scale below 1 a physics update advances tilt acceleration,
  friction and position by the scaled delta-time, so that the displacement of a frame under
  \<open>timeScale = 0.4\<close> is strictly smaller than under \<open>timeScale = 1.0\<close>. The code computes
  \<open>scaledDelta\<close> and then integrates with the unscaled \<open>deltaTime\<close>: from the same ball
  state, tilt and delta-time, a frame under \<open>timeScale = 0.4\<close> leaves the ball with exactly the
  position and velocity of the frame under \<open>timeScale = 1.0\<close>.
\<close>

theorem update_ignores_timeScale:
  "map_sum id ball (update dt inp (e\<lparr>timeScale := 0.4\<rparr>))
     = map_sum id ball (update dt inp (e\<lparr>timeScale := 1.0\<rparr>))"
  by (simp only: update_ball_timeScale)

section \<open>Wall bounce\<close>

text \<open>
  C7. The claim: on a flagged collision the axis's velocity is inverted and multiplied by
  \<open>bounce * 1.2\<close>, the magnitude of this multiplier exceeds 1 with the configured bounce
  coefficient, and a perturbation of at most 1 is added to the other axis. With the
  constructor's \<open>bounce = 0.75\<close> the multiplier is \<open>-0.9\<close>: its magnitude does not exceed 1.
\<close>

theorem bounce_multiplier_counterexample:
  "\<not> 1 < \<bar>- bounce (ball new_engine) * 1.2\<bar>"
  by (simp add: new_engine_def)

text \<open>
  C7, amended: a flagged axis has its velocity multiplied by \<open>- bounce * 1.2 = -0.9\<close>
  (inverted, magnitude \<open>0.9 < 1\<close>) and its position set to the resolved one; the other
  axis's velocity receives \<open>(Math.random() - 0.5) * 2\<close>, of magnitude at most 1. The x axis
  is handled first, so with both axes flagged the y velocity is perturbed before it is
  inverted.
\<close>

theorem wall_bounce_response:
  assumes "bounce (ball e) = bounce (ball new_engine)"
    and "0 \<le> random1 inp" "random1 inp < 1" "0 \<le> random2 inp" "random2 inp < 1"
  shows "vx (ball (respond c newX newY inp e)) =
           (if col_x c then vx (ball e) * (- bounce (ball e) * 1.2) else vx (ball e))
           + (if col_y c then (random2 inp - 0.5) * 2 else 0)
       \<and> vy (ball (respond c newX newY inp e)) =
           (if col_y c
            then (vy (ball e) + (if col_x c then (random1 inp - 0.5) * 2 else 0))
                   * (- bounce (ball e) * 1.2)
            else vy (ball e) + (if col_x c then (random1 inp - 0.5) * 2 else 0))
       \<and> - bounce (ball e) * 1.2 = - 0.9
       \<and> \<bar>- bounce (ball e) * 1.2\<bar> < 1
       \<and> \<bar>(random1 inp - 0.5) * 2\<bar> \<le> 1 \<and> \<bar>(random2 inp - 0.5) * 2\<bar> \<le> 1
       \<and> ball_x (ball (respond c newX newY inp e)) = (if col_x c then col_newX c else newX)
       \<and> ball_y (ball (respond c newX newY inp e)) = (if col_y c then col_newY c else newY)"
proof -
  have b: "bounce (ball e) = 0.75" using assms(1) by (simp add: new_engine_def)
  have p1: "\<bar>(random1 inp - 0.5) * 2\<bar> \<le> 1" using assms(2,3) by (simp add: abs_le_iff)
  have p2: "\<bar>(random2 inp - 0.5) * 2\<bar> \<le> 1" using assms(4,5) by (simp add: abs_le_iff)
  show ?thesis using p1 p2
    by (simp add: respond_def bounceX_def bounceY_def Let_def b)
qed

definition sample_input :: frame_input where
  "sample_input = \<lparr>tilt_x = 1, tilt_y = 0, stored_sensitivity = 1, random1 = 0.25, random2 = 0.75,
                    perfNow = 1000, dateNow = 1000, magnetRadius = 0\<rparr>"

definition sample_collision :: collision where
  "sample_collision = \<lparr>col_x = True, col_y = False, col_newX = 20, col_newY = 0\<rparr>"

theorem wall_bounce_response_witness:
  "vx (ball (respond sample_collision 5 7 sample_input
        (new_engine\<lparr>ball := (ball new_engine)\<lparr>vx := 10, vy := 2\<rparr>\<rparr>))) = - 9"
  using wall_bounce_response [of "new_engine\<lparr>ball := (ball new_engine)\<lparr>vx := 10, vy := 2\<rparr>\<rparr>"
      sample_input sample_collision 5 7]
  by (simp add: sample_input_def sample_collision_def new_engine_def)

section \<open>Calls on a loaded engine\<close>

text \<open>
  The calls the UI and the browser make on the engine between two \<open>loadLevel\<close>s: the
  buttons (\<open>restart\<close>, \<open>pause\<close>, \<open>resume\<close>, \<open>stop\<close>, \<open>start\<close>, the time-warp button), the
  100 ms timer, the frame callback and the \<open>setTimeout\<close> callbacks.
\<close>

datatype engine_op =
    OpRestart real real
  | OpPause
  | OpResume real
  | OpStop
  | OpStart real real
  | OpTimerTick real
  | OpFrame real frame_input
  | OpTimeout real nat
  | OpActivateTimeWarp bool real

fun apply_op :: "engine_op \<Rightarrow> engine \<Rightarrow> js_error + engine" where
  "apply_op (OpRestart now1 now2) e = restart now1 now2 e"
| "apply_op OpPause e = Inr (pause e)"
| "apply_op (OpResume now) e = Inr (resume now e)"
| "apply_op OpStop e = Inr (stop e)"
| "apply_op (OpStart now1 now2) e = Inr (start_engine now1 now2 e)"
| "apply_op (OpTimerTick now) e = Inr (timerTick now e)"
| "apply_op (OpFrame timestamp inp) e = gameLoop timestamp inp e"
| "apply_op (OpTimeout now tid) e = Inr (fireTimeout now tid e)"
| "apply_op (OpActivateTimeWarp slowMotion now) e = Inr (snd (activateTimeWarp slowMotion now e))"

fun run_ops :: "engine_op list \<Rightarrow> engine \<Rightarrow> js_error + engine" where
  "run_ops [] e = Inr e"
| "run_ops (op # ops) e =
    (case apply_op op e of Inl err \<Rightarrow> Inl err | Inr e' \<Rightarrow> run_ops ops e')"



















section \<open>Loading a level\<close>

text \<open>A level table holding one level at index 0, and a small well-formed level.\<close>

definition single_level :: "MazeDefinition \<Rightarrow> int \<Rightarrow> MazeDefinition option" where
  "single_level L idx = (if idx = 0 then Some L else None)"

definition sample_level :: MazeDefinition where
  "sample_level =
    \<lparr>level_id = 1, level_name = ''First Steps'', level_difficulty = ''Easy'',
     width = 300, height = 420, ballRadius = 12,
     start = Some \<lparr>px = 82, py = 346\<rparr>,
     goal = Some \<lparr>goal_x = 218, goal_y = 74, goal_radius = 22\<rparr>,
     level_walls = [\<lparr>wall_x = 0, wall_y = 0, wall_width = 300, wall_height = 8\<rparr>],
     holes = [], coins = [], extraLives = [], powerups = [], bouncePads = [], speedZones = [],
     movingWalls = [], starTimes = [14100, 9165, 5640], generated = True\<rparr>"

text \<open>
  C6. The claim: loading a MazeDefinition without goal, without start or with an empty
  wall list fails at load time. \<open>loadLevel\<close> checks only that the level exists: a level
  with no goal and no walls loads and reports success.
\<close>

theorem loadLevel_no_goal_counterexample:
  "map_sum id fst (loadLevel (single_level (sample_level\<lparr>goal := None, level_walls := []\<rparr>)) 0 new_engine)
     = Inr True"
  by (simp add: loadLevel_def single_level_def sample_level_def resetBall_def Let_def)

text \<open>
  C6, amended: \<open>loadLevel\<close> reports failure (returns false) exactly when the level manager
  has no level at the index. It does not validate the level: with a \<open>start\<close> it returns true
  whatever the goal and the wall list are; without a \<open>start\<close> it raises a TypeError in
  \<open>resetBall\<close>. A missing goal surfaces in the first frame that reaches the goal check,
  as a TypeError and not as a skipped check.
\<close>

theorem loadLevel_validation:
  "(map_sum id fst (loadLevel getLevel idx e) = Inr False \<longleftrightarrow> getLevel idx = None)
   \<and> (\<forall>L. getLevel idx = Some L \<longrightarrow> start L = None \<longrightarrow> loadLevel getLevel idx e = Inl TypeError)
   \<and> (\<forall>L. getLevel idx = Some L \<longrightarrow> start L \<noteq> None \<longrightarrow>
         map_sum id fst (loadLevel getLevel idx e) = Inr True)
   \<and> (\<forall>L e'. goal L = None \<longrightarrow> checkGoalCollision L e' = Inl TypeError)"
  by (auto simp: loadLevel_def resetBall_def checkGoalCollision_def Let_def split: option.splits)

theorem loadLevel_validation_witness:
  "loadLevel (single_level (sample_level\<lparr>start := None\<rparr>)) 0 new_engine = Inl TypeError
   \<and> map_sum id fst (loadLevel (single_level (sample_level\<lparr>level_walls := []\<rparr>)) 0 new_engine) = Inr True
   \<and> map_sum id fst (loadLevel (single_level sample_level) 1 new_engine) = Inr False
   \<and> checkGoalCollision (sample_level\<lparr>goal := None\<rparr>) new_engine = Inl TypeError"
proof -
  have 1: "single_level (sample_level\<lparr>start := None\<rparr>) 0 = Some (sample_level\<lparr>start := None\<rparr>)"
    by (simp add: single_level_def)
  have 2: "single_level (sample_level\<lparr>level_walls := []\<rparr>) 0 = Some (sample_level\<lparr>level_walls := []\<rparr>)"
    by (simp add: single_level_def)
  have 3: "single_level sample_level 1 = None" by (simp add: single_level_def)
  have s1: "start (sample_level\<lparr>start := None\<rparr>) = None" by simp
  have s2: "start (sample_level\<lparr>level_walls := []\<rparr>) \<noteq> None" by (simp add: sample_level_def)
  have g: "goal (sample_level\<lparr>goal := None\<rparr>) = None" by simp
  show ?thesis
    using loadLevel_validation [of "single_level (sample_level\<lparr>start := None\<rparr>)" 0 new_engine]
      loadLevel_validation [of "single_level (sample_level\<lparr>level_walls := []\<rparr>)" 0 new_engine]
      loadLevel_validation [of "single_level sample_level" 1 new_engine]
      1 2 3 s1 s2 g
    by blast
qed

section \<open>Pause and resume\<close>

definition paused_with_powerup :: engine where
  "paused_with_powerup = pause (activatePowerup slow_motion 0 (start_engine 0 0 new_engine))"

text \<open>
  C5. The claim: while paused no runtime state mutates, active powerup effects do not
  expire, and moving walls continue after the resume from where they were. The expiry of a
  powerup is a \<open>setTimeout\<close> callback that \<open>pause\<close> leaves pending: it fires during the
  pause and ends the effect.
\<close>

theorem pause_powerup_expiry_counterexample:
  "isPaused paused_with_powerup
   \<and> isPowerupActive slow_motion paused_with_powerup
   \<and> \<not> isPowerupActive slow_motion (fireTimeout 4000 0 paused_with_powerup)"
  by (simp add: paused_with_powerup_def pause_def activatePowerup_def start_engine_def new_engine_def
      add_timeout_def powerupDuration_def isPowerupActive_def fireTimeout_def runTimeout_def Let_def)

text \<open>Frame callbacks and timer ticks delivered to a paused engine.\<close>

fun frame_or_tick :: "engine_op \<Rightarrow> bool" where
  "frame_or_tick (OpFrame timestamp inp) = True"
| "frame_or_tick (OpTimerTick now) = True"
| "frame_or_tick op = False"

lemma paused_apply_op:
  "isPaused e \<Longrightarrow> \<not> timerInterval e \<Longrightarrow> frame_or_tick op \<Longrightarrow> apply_op op e = Inr e"
  by (cases op) (simp_all add: gameLoop_def timerTick_def)

lemma paused_run_ops:
  "isPaused e \<Longrightarrow> \<not> timerInterval e \<Longrightarrow> list_all frame_or_tick ops \<Longrightarrow> run_ops ops e = Inr e"
  by (induction ops) (simp_all add: paused_apply_op)

text \<open>
  C5, amended: while the session is paused, frame callbacks and timer ticks change
  nothing (\<open>gameLoop\<close> returns before \<open>update\<close>; the 100 ms timer is cleared), and \<open>pause\<close>
  itself leaves the ball, the moving walls, the active powerups and the pending timeouts as
  they are. After \<open>resume\<close> at \<open>t0\<close> the first frame runs \<open>update\<close> with
  \<open>min ((timestamp - t0) / 1000) 0.05\<close>: no catch-up for the pause. Pending \<open>setTimeout\<close>
  callbacks are not cleared by \<open>pause\<close> (they fire on the wall clock), and a frame puts
  each moving wall where \<open>performance.now()\<close> says, whatever its position was before.
\<close>

theorem pause_resume_frames:
  assumes "isRunning e" and "\<not> isPaused e" and "list_all frame_or_tick ops"
  shows "isPaused (pause e)
       \<and> run_ops ops (pause e) = Inr (pause e)
       \<and> ball (pause e) = ball e \<and> levelMovingWalls (pause e) = levelMovingWalls e
       \<and> activePowerups (pause e) = activePowerups e \<and> timeouts (pause e) = timeouts e
       \<and> lastFrameTime (resume t0 (pause e)) = t0
       \<and> gameLoop timestamp inp (resume t0 (pause e)) =
            (case update (min ((timestamp - t0) / 1000) 0.05) inp
                    ((resume t0 (pause e))\<lparr>lastFrameTime := timestamp\<rparr>) of
               Inl err \<Rightarrow> Inl err
             | Inr e2 \<Rightarrow> Inr (e2\<lparr>animationFrameId := True\<rparr>))
       \<and> (mw_direction (wall_def w) = Horizontal \<longrightarrow>
            currentX (moveWall now (w\<lparr>currentX := a\<rparr>)) =
              originalX (wall_def w)
              + sin (now / 1000 * (mw_speed (wall_def w) / 50) + mw_phase (wall_def w)) * mw_range (wall_def w))
       \<and> (mw_direction (wall_def w) = Vertical \<longrightarrow>
            currentY (moveWall now (w\<lparr>currentY := a\<rparr>)) =
              originalY (wall_def w)
              + sin (now / 1000 * (mw_speed (wall_def w) / 50) + mw_phase (wall_def w)) * mw_range (wall_def w))"
proof -
  have p: "isPaused (pause e)" "\<not> timerInterval (pause e)" "isRunning (pause e)"
    using assms(1,2) by (simp_all add: pause_def)
  have r: "run_ops ops (pause e) = Inr (pause e)"
    by (rule paused_run_ops [OF p(1) p(2) assms(3)])
  have f: "ball (pause e) = ball e \<and> levelMovingWalls (pause e) = levelMovingWalls e
       \<and> activePowerups (pause e) = activePowerups e \<and> timeouts (pause e) = timeouts e"
    by (simp add: pause_def)
  have l: "lastFrameTime (resume t0 (pause e)) = t0"
    using p by (simp add: resume_def)
  have g: "gameLoop timestamp inp (resume t0 (pause e)) =
            (case update (min ((timestamp - t0) / 1000) 0.05) inp
                    ((resume t0 (pause e))\<lparr>lastFrameTime := timestamp\<rparr>) of
               Inl err \<Rightarrow> Inl err
             | Inr e2 \<Rightarrow> Inr (e2\<lparr>animationFrameId := True\<rparr>))"
    using p by (simp add: gameLoop_def resume_def Let_def)
  have m: "(mw_direction (wall_def w) = Horizontal \<longrightarrow>
            currentX (moveWall now (w\<lparr>currentX := a\<rparr>)) =
              originalX (wall_def w)
              + sin (now / 1000 * (mw_speed (wall_def w) / 50) + mw_phase (wall_def w)) * mw_range (wall_def w))
       \<and> (mw_direction (wall_def w) = Vertical \<longrightarrow>
            currentY (moveWall now (w\<lparr>currentY := a\<rparr>)) =
              originalY (wall_def w)
              + sin (now / 1000 * (mw_speed (wall_def w) / 50) + mw_phase (wall_def w)) * mw_range (wall_def w))"
    by (simp add: moveWall_def Let_def)
  show ?thesis using p(1) r f l g m by blast
qed

theorem pause_resume_frames_witness:
  "run_ops [OpFrame 5000 sample_input, OpTimerTick 5100, OpFrame 9000 sample_input]
      (pause (start_engine 0 0 new_engine)) = Inr (pause (start_engine 0 0 new_engine))
   \<and> lastFrameTime (resume 9500 (pause (start_engine 0 0 new_engine))) = 9500"
proof -
  have 1: "isRunning (start_engine 0 0 new_engine)" "\<not> isPaused (start_engine 0 0 new_engine)"
    by (simp_all add: start_engine_def new_engine_def)
  have 2: "list_all frame_or_tick [OpFrame 5000 sample_input, OpTimerTick 5100, OpFrame 9000 sample_input]"
    by simp
  from pause_resume_frames [OF 1 2, of 9500] show ?thesis by blast
qed

section \<open>Reading the grid\<close>

lemma flags_set_visited:
  "top_w (walls (set_visited g r c r' c')) = top_w (walls (g r' c'))"
  "right_w (walls (set_visited g r c r' c')) = right_w (walls (g r' c'))"
  "bottom_w (walls (set_visited g r c r' c')) = bottom_w (walls (g r' c'))"
  "left_w (walls (set_visited g r c r' c')) = left_w (walls (g r' c'))"
  by (simp_all add: walls_set_visited)

lemma flags_clear_top:
  "top_w (walls (clear_top g r c r' c')) = (top_w (walls (g r' c')) \<and> \<not> (r' = r \<and> c' = c))"
  "right_w (walls (clear_top g r c r' c')) = right_w (walls (g r' c'))"
  "bottom_w (walls (clear_top g r c r' c')) = bottom_w (walls (g r' c'))"
  "left_w (walls (clear_top g r c r' c')) = left_w (walls (g r' c'))"
  by (auto simp: clear_top_def upd_cell_apply)

lemma flags_clear_right:
  "top_w (walls (clear_right g r c r' c')) = top_w (walls (g r' c'))"
  "right_w (walls (clear_right g r c r' c')) = (right_w (walls (g r' c')) \<and> \<not> (r' = r \<and> c' = c))"
  "bottom_w (walls (clear_right g r c r' c')) = bottom_w (walls (g r' c'))"
  "left_w (walls (clear_right g r c r' c')) = left_w (walls (g r' c'))"
  by (auto simp: clear_right_def upd_cell_apply)

lemma flags_clear_bottom:
  "top_w (walls (clear_bottom g r c r' c')) = top_w (walls (g r' c'))"
  "right_w (walls (clear_bottom g r c r' c')) = right_w (walls (g r' c'))"
  "bottom_w (walls (clear_bottom g r c r' c')) = (bottom_w (walls (g r' c')) \<and> \<not> (r' = r \<and> c' = c))"
  "left_w (walls (clear_bottom g r c r' c')) = left_w (walls (g r' c'))"
  by (auto simp: clear_bottom_def upd_cell_apply)

lemma flags_clear_left:
  "top_w (walls (clear_left g r c r' c')) = top_w (walls (g r' c'))"
  "right_w (walls (clear_left g r c r' c')) = right_w (walls (g r' c'))"
  "bottom_w (walls (clear_left g r c r' c')) = bottom_w (walls (g r' c'))"
  "left_w (walls (clear_left g r c r' c')) = (left_w (walls (g r' c')) \<and> \<not> (r' = r \<and> c' = c))"
  by (auto simp: clear_left_def upd_cell_apply)

lemma cell_initial_grid:
  "visited (initial_grid r c) = False"
  "top_w (walls (initial_grid r c)) = True"
  "right_w (walls (initial_grid r c)) = True"
  "bottom_w (walls (initial_grid r c)) = True"
  "left_w (walls (initial_grid r c)) = True"
  by (simp_all add: initial_grid_def new_cell_def)

lemmas grid_lookup = visited_set_visited visited_clear flags_set_visited flags_clear_top
  flags_clear_right flags_clear_bottom flags_clear_left cell_initial_grid

section \<open>Connectivity of the maze\<close>

text \<open>
  One step of a search over open adjacencies: from a cell of the grid to the neighbour
  on the side whose wall flag is off.
\<close>

definition passage :: "grid \<Rightarrow> nat \<Rightarrow> nat \<Rightarrow> nat \<times> nat \<Rightarrow> nat \<times> nat \<Rightarrow> bool" where
  "passage g rows cols p q \<longleftrightarrow>
     fst p < rows \<and> snd p < cols \<and> fst q < rows \<and> snd q < cols \<and>
     ((fst q + 1 = fst p \<and> snd q = snd p \<and> \<not> top_w (walls (g (fst p) (snd p)))) \<or>
      (fst q = fst p \<and> snd q = snd p + 1 \<and> \<not> right_w (walls (g (fst p) (snd p)))) \<or>
      (fst q = fst p + 1 \<and> snd q = snd p \<and> \<not> bottom_w (walls (g (fst p) (snd p)))) \<or>
      (fst q = fst p \<and> snd q + 1 = snd p \<and> \<not> left_w (walls (g (fst p) (snd p)))))"

text \<open>What a breadth-first search from \<open>p\<close> finds: the cells linked to \<open>p\<close> by a chain of passages.\<close>

definition reachable :: "grid \<Rightarrow> nat \<Rightarrow> nat \<Rightarrow> nat \<times> nat \<Rightarrow> nat \<times> nat \<Rightarrow> bool" where
  "reachable g rows cols = (passage g rows cols)\<^sup>*\<^sup>*"

text \<open>\<open>fewer_walls g' g\<close>: every wall of \<open>g'\<close> is a wall of \<open>g\<close>.\<close>

definition fewer_walls :: "grid \<Rightarrow> grid \<Rightarrow> bool" where
  "fewer_walls g' g \<longleftrightarrow>
     (\<forall>r c. (top_w (walls (g' r c)) \<longrightarrow> top_w (walls (g r c))) \<and>
            (right_w (walls (g' r c)) \<longrightarrow> right_w (walls (g r c))) \<and>
            (bottom_w (walls (g' r c)) \<longrightarrow> bottom_w (walls (g r c))) \<and>
            (left_w (walls (g' r c)) \<longrightarrow> left_w (walls (g r c))))"

lemma fewer_walls_refl: "fewer_walls g g"
  by (simp add: fewer_walls_def)

lemma fewer_walls_trans: "fewer_walls g3 g2 \<Longrightarrow> fewer_walls g2 g1 \<Longrightarrow> fewer_walls g3 g1"
  unfolding fewer_walls_def by blast

lemma fewer_walls_ops:
  "fewer_walls (clear_top g r c) g"
  "fewer_walls (clear_right g r c) g"
  "fewer_walls (clear_bottom g r c) g"
  "fewer_walls (clear_left g r c) g"
  "fewer_walls (set_visited g r c) g"
  by (simp_all add: fewer_walls_def grid_lookup)

lemma fewer_walls_removeWallBetween: "fewer_walls (removeWallBetween g a b) g"
  by (auto simp: removeWallBetween_def Let_def fewer_walls_refl
      intro: fewer_walls_trans [OF fewer_walls_ops(1)] fewer_walls_trans [OF fewer_walls_ops(2)]
        fewer_walls_trans [OF fewer_walls_ops(3)] fewer_walls_trans [OF fewer_walls_ops(4)]
        fewer_walls_ops)

lemma passage_mono: "fewer_walls g' g \<Longrightarrow> passage g rows cols p q \<Longrightarrow> passage g' rows cols p q"
  unfolding passage_def fewer_walls_def by blast

lemma reachable_mono:
  assumes "fewer_walls g' g" and "reachable g rows cols p q"
  shows "reachable g' rows cols p q"
  using assms(2) unfolding reachable_def
  by (induction rule: rtranclp_induct) (auto intro: rtranclp.rtrancl_into_rtrancl passage_mono [OF assms(1)])

lemma fewer_walls_addExtraPassages:
  "addExtraPassages k rows cols g seed = (g', seed') \<Longrightarrow> fewer_walls g' g"
proof (induction k arbitrary: g seed)
  case 0
  then show ?case by (simp add: fewer_walls_refl)
next
  case (Suc k)
  let ?s1 = "rng_next seed" let ?s2 = "rng_next ?s1" let ?s3 = "rng_next ?s2"
  let ?row = "rng_floor ?s1 rows" let ?col = "rng_floor ?s2 cols" let ?dir = "rng_floor ?s3 4"
  let ?g1 = "(if ?dir = 0 \<and> ?row > 0 then clear_bottom (clear_top g ?row ?col) (?row - 1) ?col
               else if ?dir = 1 \<and> ?col + 1 < cols then clear_left (clear_right g ?row ?col) ?row (?col + 1)
               else if ?dir = 2 \<and> ?row + 1 < rows then clear_top (clear_bottom g ?row ?col) (?row + 1) ?col
               else if ?dir = 3 \<and> ?col > 0 then clear_right (clear_left g ?row ?col) ?row (?col - 1)
               else g)"
  have step: "fewer_walls ?g1 g"
    by (auto simp: fewer_walls_refl intro: fewer_walls_trans [OF fewer_walls_ops(1)]
        fewer_walls_trans [OF fewer_walls_ops(2)] fewer_walls_trans [OF fewer_walls_ops(3)]
        fewer_walls_trans [OF fewer_walls_ops(4)] fewer_walls_ops)
  have "addExtraPassages k rows cols ?g1 ?s3 = (g', seed')"
    using Suc.prems by (simp add: Let_def)
  then have "fewer_walls g' ?g1" by (rule Suc.IH)
  then show ?case using step by (rule fewer_walls_trans)
qed

lemma neighbors_in_grid:
  "r < rows \<Longrightarrow> c < cols \<Longrightarrow> p \<in> set (getUnvisitedNeighbors g r c rows cols) \<Longrightarrow>
     fst p < rows \<and> snd p < cols"
  by (auto simp: getUnvisitedNeighbors_def split: if_splits)

lemma neighbors_Nil_iff:
  "getUnvisitedNeighbors g r c rows cols = [] \<longleftrightarrow>
     (r > 0 \<longrightarrow> visited (g (r - 1) c)) \<and> (c + 1 < cols \<longrightarrow> visited (g r (c + 1))) \<and>
     (r + 1 < rows \<longrightarrow> visited (g (r + 1) c)) \<and> (c > 0 \<longrightarrow> visited (g r (c - 1)))"
  by (auto simp: getUnvisitedNeighbors_def)

lemma passage_to_neighbor:
  assumes "r < rows" "c < cols" "p \<in> set (getUnvisitedNeighbors g r c rows cols)"
  shows "passage (set_visited (removeWallBetween g (r, c) p) (fst p) (snd p)) rows cols (r, c) p"
proof -
  have ing: "fst p < rows" "snd p < cols" using neighbors_in_grid [OF assms] by simp_all
  from assms(3) consider
      (top) "r > 0" "p = (r - 1, c)"
    | (right) "p = (r, c + 1)"
    | (bottom) "p = (r + 1, c)"
    | (left) "c > 0" "p = (r, c - 1)"
    by (auto simp: getUnvisitedNeighbors_def split: if_splits)
  then show ?thesis
  proof cases
    case top
    then show ?thesis using assms(1,2) ing
      by (simp add: passage_def removeWallBetween_def Let_def grid_lookup)
  next
    case right
    then show ?thesis using assms(1,2) ing
      by (simp add: passage_def removeWallBetween_def Let_def grid_lookup)
  next
    case bottom
    then show ?thesis using assms(1,2) ing
      by (simp add: passage_def removeWallBetween_def Let_def grid_lookup)
  next
    case left
    then show ?thesis using assms(1,2) ing
      by (simp add: passage_def removeWallBetween_def Let_def grid_lookup)
  qed
qed

text \<open>
  The invariant of the carving loop: the stack holds visited cells of the grid; every
  visited cell is linked to the start cell; a visited cell that has left the stack has no
  unvisited neighbour.
\<close>

definition carve_inv :: "nat \<Rightarrow> nat \<Rightarrow> grid \<Rightarrow> (nat \<times> nat) list \<Rightarrow> bool" where
  "carve_inv rows cols g stack \<longleftrightarrow>
     (\<forall>p \<in> set stack. fst p < rows \<and> snd p < cols \<and> visited (g (fst p) (snd p))) \<and>
     visited (g (rows - 1) 0) \<and>
     (\<forall>r c. r < rows \<longrightarrow> c < cols \<longrightarrow> visited (g r c) \<longrightarrow>
        reachable g rows cols (rows - 1, 0) (r, c)) \<and>
     (\<forall>r c. r < rows \<longrightarrow> c < cols \<longrightarrow> visited (g r c) \<longrightarrow> (r, c) \<notin> set stack \<longrightarrow>
        getUnvisitedNeighbors g r c rows cols = [])"

lemma carve_inv_pop:
  assumes "carve_inv rows cols g (current # stack)"
    and "getUnvisitedNeighbors g (fst current) (snd current) rows cols = []"
  shows "carve_inv rows cols g stack"
proof -
  have a: "\<forall>p \<in> set stack. fst p < rows \<and> snd p < cols \<and> visited (g (fst p) (snd p))"
    using assms(1) by (simp add: carve_inv_def)
  have b: "visited (g (rows - 1) 0)" using assms(1) by (simp add: carve_inv_def)
  have c: "\<forall>r c. r < rows \<longrightarrow> c < cols \<longrightarrow> visited (g r c) \<longrightarrow>
        reachable g rows cols (rows - 1, 0) (r, c)"
    using assms(1) by (simp add: carve_inv_def)
  have d: "\<forall>r c. r < rows \<longrightarrow> c < cols \<longrightarrow> visited (g r c) \<longrightarrow> (r, c) \<notin> set stack \<longrightarrow>
        getUnvisitedNeighbors g r c rows cols = []"
  proof (intro allI impI)
    fix r c assume h: "r < rows" "c < cols" "visited (g r c)" "(r, c) \<notin> set stack"
    show "getUnvisitedNeighbors g r c rows cols = []"
    proof (cases "(r, c) = current")
      case True
      then have "fst current = r" "snd current = c" by auto
      then show ?thesis using assms(2) by simp
    next
      case False
      then have "(r, c) \<notin> set (current # stack)" using h(4) by simp
      then show ?thesis using assms(1) h(1,2,3) unfolding carve_inv_def by blast
    qed
  qed
  show ?thesis unfolding carve_inv_def by (intro conjI a b c d)
qed

lemma carve_inv_push:
  assumes inv: "carve_inv rows cols g (current # stack)"
    and mem: "nxt \<in> set (getUnvisitedNeighbors g (fst current) (snd current) rows cols)"
  shows "carve_inv rows cols (set_visited (removeWallBetween g current nxt) (fst nxt) (snd nxt))
           (nxt # current # stack)"
proof -
  let ?g = "set_visited (removeWallBetween g current nxt) (fst nxt) (snd nxt)"
  have cur: "fst current < rows" "snd current < cols" "visited (g (fst current) (snd current))"
    using inv by (simp_all add: carve_inv_def)
  have nin: "fst nxt < rows" "snd nxt < cols" using neighbors_in_grid [OF cur(1,2) mem] by simp_all
  have vis: "\<And>r c. visited (?g r c) = (visited (g r c) \<or> (r = fst nxt \<and> c = snd nxt))"
    by (simp add: visited_set_visited visited_removeWallBetween)
  have fw: "fewer_walls ?g g"
    by (rule fewer_walls_trans [OF fewer_walls_ops(5) fewer_walls_removeWallBetween])
  have pas: "passage ?g rows cols current nxt"
    using passage_to_neighbor [OF cur(1,2), of nxt g] mem by simp
  have rc: "reachable ?g rows cols (rows - 1, 0) current"
  proof -
    have "reachable g rows cols (rows - 1, 0) (fst current, snd current)"
      using inv cur unfolding carve_inv_def by blast
    then have "reachable g rows cols (rows - 1, 0) current" by simp
    then show ?thesis by (rule reachable_mono [OF fw])
  qed
  have rn: "reachable ?g rows cols (rows - 1, 0) nxt"
    using rc pas unfolding reachable_def by (rule rtranclp.rtrancl_into_rtrancl)
  have 1: "\<forall>p \<in> set (nxt # current # stack). fst p < rows \<and> snd p < cols \<and> visited (?g (fst p) (snd p))"
    using inv nin unfolding carve_inv_def by (auto simp: vis)
  have 2: "visited (?g (rows - 1) 0)" using inv by (simp add: vis carve_inv_def)
  have 3: "\<forall>r c. r < rows \<longrightarrow> c < cols \<longrightarrow> visited (?g r c) \<longrightarrow>
        reachable ?g rows cols (rows - 1, 0) (r, c)"
  proof (intro allI impI)
    fix r c assume "r < rows" "c < cols" "visited (?g r c)"
    then consider "visited (g r c)" | "(r, c) = nxt" by (auto simp: vis)
    then show "reachable ?g rows cols (rows - 1, 0) (r, c)"
    proof cases
      case 1
      then have "reachable g rows cols (rows - 1, 0) (r, c)"
        using inv \<open>r < rows\<close> \<open>c < cols\<close> by (simp add: carve_inv_def)
      then show ?thesis by (rule reachable_mono [OF fw])
    next
      case 2
      then show ?thesis using rn by simp
    qed
  qed
  have 4: "\<forall>r c. r < rows \<longrightarrow> c < cols \<longrightarrow> visited (?g r c) \<longrightarrow> (r, c) \<notin> set (nxt # current # stack) \<longrightarrow>
        getUnvisitedNeighbors ?g r c rows cols = []"
  proof (intro allI impI)
    fix r c assume a: "r < rows" "c < cols" "visited (?g r c)" "(r, c) \<notin> set (nxt # current # stack)"
    then have "visited (g r c)" "(r, c) \<notin> set (current # stack)"
      by (auto simp: vis)
    then have "getUnvisitedNeighbors g r c rows cols = []"
      using inv a(1,2) by (simp add: carve_inv_def)
    then show "getUnvisitedNeighbors ?g r c rows cols = []"
      by (simp add: neighbors_Nil_iff vis)
  qed
  show ?thesis unfolding carve_inv_def using 1 2 3 4 by blast
qed

lemma carve_inv_result:
  "carve_inv rows cols g stack \<Longrightarrow> carve rows cols g stack seed = (g', seed') \<Longrightarrow>
     carve_inv rows cols g' []"
proof (induction rows cols g stack seed rule: carve.induct)
  case (1 rows cols g seed)
  then show ?case by simp
next
  case (2 rows cols g current stack seed)
  let ?nb = "getUnvisitedNeighbors g (fst current) (snd current) rows cols"
  show ?case
  proof (cases "length ?nb = 0")
    case True
    then have nil: "?nb = []" by simp
    have "carve rows cols g stack seed = (g', seed')"
      using "2.prems"(2) True by (simp add: Let_def)
    moreover have "carve_inv rows cols g stack"
      by (rule carve_inv_pop [OF "2.prems"(1) nil])
    ultimately show ?thesis using "2.IH"(1) [OF refl True] by blast
  next
    case False
    let ?s = "rng_next seed"
    let ?nxt = "?nb ! rng_floor ?s (length ?nb)"
    let ?g1 = "removeWallBetween g current ?nxt"
    let ?g2 = "set_visited ?g1 (fst ?nxt) (snd ?nxt)"
    have "rng_floor ?s (length ?nb) < length ?nb"
      using False by (simp add: rng_floor_lt rng_next_lt)
    then have mem: "?nxt \<in> set ?nb" by simp
    have inv: "carve_inv rows cols ?g2 (?nxt # current # stack)"
      by (rule carve_inv_push [OF "2.prems"(1) mem])
    have "carve rows cols ?g2 (?nxt # current # stack) ?s = (g', seed')"
      using "2.prems"(2) False by (simp add: Let_def)
    then show ?thesis
      using "2.IH"(2) [OF refl False refl refl refl refl inv] by blast
  qed
qed

lemma carve_inv_initial:
  assumes "0 < rows" "0 < cols"
  shows "carve_inv rows cols (set_visited initial_grid (rows - 1) 0) [(rows - 1, 0)]"
proof -
  let ?g = "set_visited initial_grid (rows - 1) 0"
  have v: "\<And>r c. visited (?g r c) = (r = rows - 1 \<and> c = 0)"
    by (simp add: grid_lookup)
  have b: "visited (?g (rows - 1) 0)" by (simp add: visited_set_visited)
  have a: "\<forall>p \<in> set [(rows - 1, 0)]. fst p < rows \<and> snd p < cols \<and> visited (?g (fst p) (snd p))"
    using assms b by simp
  have c: "\<forall>r c. r < rows \<longrightarrow> c < cols \<longrightarrow> visited (?g r c) \<longrightarrow>
        reachable ?g rows cols (rows - 1, 0) (r, c)"
    by (auto simp: visited_set_visited cell_initial_grid reachable_def)
  have d: "\<forall>r c. r < rows \<longrightarrow> c < cols \<longrightarrow> visited (?g r c) \<longrightarrow> (r, c) \<notin> set [(rows - 1, 0)] \<longrightarrow>
        getUnvisitedNeighbors ?g r c rows cols = []"
    by (auto simp: visited_set_visited cell_initial_grid)
  show ?thesis unfolding carve_inv_def by (intro conjI a b c d)
qed

text \<open>When the stack is empty, the visited cells are closed under grid neighbours: all cells are visited.\<close>

lemma all_visited:
  assumes inv: "carve_inv rows cols g []" and pos: "0 < rows" "0 < cols"
    and rc: "r < rows" "c < cols"
  shows "visited (g r c)"
proof -
  have closed: "\<And>r c. r < rows \<Longrightarrow> c < cols \<Longrightarrow> visited (g r c) \<Longrightarrow>
      (r > 0 \<longrightarrow> visited (g (r - 1) c)) \<and> (c + 1 < cols \<longrightarrow> visited (g r (c + 1)))"
    using inv unfolding carve_inv_def by (simp add: neighbors_Nil_iff)
  have row: "c' < cols \<Longrightarrow> visited (g (rows - 1) c')" for c'
  proof (induction c')
    case 0
    then show ?case using inv by (simp add: carve_inv_def)
  next
    case (Suc c')
    then have "visited (g (rows - 1) c')" by simp
    then show ?case using closed [of "rows - 1" c'] Suc.prems pos by simp
  qed
  have col: "k < rows \<Longrightarrow> visited (g (rows - 1 - k) c)" for k
  proof (induction k)
    case 0
    then show ?case using row [OF rc(2)] by simp
  next
    case (Suc k)
    then have v: "visited (g (rows - 1 - k) c)" by simp
    have "rows - 1 - k > 0" using Suc.prems by simp
    then have "visited (g (rows - 1 - k - 1) c)"
      using closed [of "rows - 1 - k" c] v rc(2) pos by simp
    then show ?case by simp
  qed
  have "rows - 1 - r < rows" using pos by simp
  from col [OF this] show ?thesis using rc(1) by simp
qed

lemma carved_grid_connected:
  assumes "0 < rows" "0 < cols" "r < rows" "c < cols"
  shows "visited (fst (carved_grid cols rows seed) r c)
       \<and> reachable (fst (carved_grid cols rows seed)) rows cols (rows - 1, 0) (r, c)"
proof -
  obtain g' seed' where c: "carve rows cols (set_visited initial_grid (rows - 1) 0) [(rows - 1, 0)] seed = (g', seed')"
    by (cases "carve rows cols (set_visited initial_grid (rows - 1) 0) [(rows - 1, 0)] seed")
  have inv: "carve_inv rows cols g' []"
    by (rule carve_inv_result [OF carve_inv_initial [OF assms(1,2)] c])
  have v: "visited (g' r c)" by (rule all_visited [OF inv assms])
  have "reachable g' rows cols (rows - 1, 0) (r, c)"
    using inv v assms(3,4) by (simp add: carve_inv_def)
  then show ?thesis using v c by (simp add: carved_grid_def Let_def)
qed

lemma generateMazeGrid_connected:
  assumes "0 < rows" "0 < cols" "r < rows" "c < cols"
  shows "reachable (fst (generateMazeGrid cols rows seed)) rows cols (rows - 1, 0) (r, c)"
proof -
  obtain g1 s1 where c: "carved_grid cols rows seed = (g1, s1)" by (cases "carved_grid cols rows seed")
  obtain g2 s2 where e: "addExtraPassages (nat \<lfloor>real (cols * rows) * 0.08\<rfloor>) rows cols g1 s1 = (g2, s2)"
    by (cases "addExtraPassages (nat \<lfloor>real (cols * rows) * 0.08\<rfloor>) rows cols g1 s1")
  have "reachable g1 rows cols (rows - 1, 0) (r, c)"
    using carved_grid_connected [OF assms, of seed] c by simp
  then have "reachable g2 rows cols (rows - 1, 0) (r, c)"
    by (rule reachable_mono [OF fewer_walls_addExtraPassages [OF e]])
  then show ?thesis using c e by (simp add: generateMazeGrid_def Let_def)
qed

text \<open>The eleven layouts: canvas, cell size and grid of each difficulty tier.\<close>

definition layouts :: "(nat \<times> nat \<times> nat \<times> nat \<times> nat) list" where
  "layouts = [(300, 420, 68, 3, 5), (315, 438, 66, 3, 5), (330, 456, 64, 4, 6),
              (350, 480, 62, 4, 6), (370, 504, 60, 5, 7), (390, 528, 58, 5, 8),
              (410, 552, 56, 6, 8), (430, 576, 54, 6, 9), (450, 600, 52, 7, 10),
              (470, 624, 50, 8, 11)]"

lemma level_layout:
  "(levelWidth n, levelHeight n, levelCellSize n, levelCols n, levelRows n) \<in> set layouts"
  by (simp add: levelWidth_def levelHeight_def levelCellSize_def levelCols_def levelRows_def
      getDifficulty_def layouts_def)

lemma levelCols_ge: "3 \<le> levelCols n"
  using level_layout [of n] by (auto simp: layouts_def)

lemma levelRows_ge: "5 \<le> levelRows n"
  using level_layout [of n] by (auto simp: layouts_def)

text \<open>
  C2. In the grid \<open>generateLevel\<close> builds, every cell, and so the goal cell (top right), is
  linked to the start cell (bottom left) by open adjacencies; already when the carving loop
  ends, before the extra passages, every cell is visited and linked to the start cell.
\<close>

theorem maze_connected:
  assumes "r < levelRows levelNum" and "c < levelCols levelNum"
  shows "reachable (fst (levelMaze levelNum)) (levelRows levelNum) (levelCols levelNum)
           (levelRows levelNum - 1, 0) (0, levelCols levelNum - 1)
       \<and> reachable (fst (levelMaze levelNum)) (levelRows levelNum) (levelCols levelNum)
           (levelRows levelNum - 1, 0) (r, c)
       \<and> visited (fst (carved_grid (levelCols levelNum) (levelRows levelNum) (random (levelNum * 7919))) r c)
       \<and> reachable (fst (carved_grid (levelCols levelNum) (levelRows levelNum) (random (levelNum * 7919))))
           (levelRows levelNum) (levelCols levelNum) (levelRows levelNum - 1, 0) (r, c)"
proof -
  have pos: "0 < levelRows levelNum" "0 < levelCols levelNum"
    using levelRows_ge [of levelNum] levelCols_ge [of levelNum] by simp_all
  have g: "0 < levelRows levelNum" "levelCols levelNum - 1 < levelCols levelNum"
    using pos by simp_all
  show ?thesis
    using generateMazeGrid_connected [OF pos g, of "random (levelNum * 7919)"]
      generateMazeGrid_connected [OF pos assms, of "random (levelNum * 7919)"]
      carved_grid_connected [OF pos assms, of "random (levelNum * 7919)"]
    by (simp add: levelMaze_def)
qed

theorem maze_connected_witness:
  "(0::nat) < levelRows 1 \<and> (2::nat) < levelCols 1
   \<and> reachable (fst (levelMaze 1)) (levelRows 1) (levelCols 1) (levelRows 1 - 1, 0) (0, 2)"
proof -
  have 1: "(0::nat) < levelRows 1" "(2::nat) < levelCols 1"
    by (simp_all add: levelWidth_def levelHeight_def levelCellSize_def levelCols_def levelRows_def
        getDifficulty_def)
  from maze_connected [OF 1] 1 show ?thesis by blast
qed

section \<open>Level 2, evaluated\<close>

lemma rng_floor_div: "rng_floor s k = (s * k) div 233280"
proof -
  have "rng_value s * real k = real (s * k) / real (233280::nat)"
    by (simp add: rng_value_def)
  then have "\<lfloor>rng_value s * real k\<rfloor> = int ((s * k) div 233280)"
    by (simp only: floor_divide_of_nat_eq)
  then show ?thesis by (simp add: rng_floor_def)
qed

text \<open>Deciding comparisons with a square root of a numeral.\<close>

lemma sqrt_less_iff: "0 \<le> v \<Longrightarrow> sqrt v < m \<longleftrightarrow> 0 < m \<and> v < m\<^sup>2"
proof (cases "0 < m")
  case True
  assume "0 \<le> v"
  from True have d: "sqrt (m\<^sup>2) = m" by simp
  have "sqrt v < sqrt (m\<^sup>2) \<longleftrightarrow> v < m\<^sup>2" by (rule real_sqrt_less_iff)
  then show ?thesis using True by (simp only: d simp_thms)
next
  case False
  assume "0 \<le> v"
  then have "0 \<le> sqrt v" by simp
  then show ?thesis using False by linarith
qed

lemma less_sqrt_iff: "0 \<le> v \<Longrightarrow> m < sqrt v \<longleftrightarrow> m < 0 \<or> m\<^sup>2 < v"
proof (cases "0 \<le> m")
  case True
  assume "0 \<le> v"
  from True have d: "sqrt (m\<^sup>2) = m" by simp
  have "sqrt (m\<^sup>2) < sqrt v \<longleftrightarrow> m\<^sup>2 < v" by (rule real_sqrt_less_iff)
  moreover have "\<not> m < 0" using True by simp
  ultimately show ?thesis by (simp only: d simp_thms)
next
  case False
  assume "0 \<le> v"
  then have "0 \<le> sqrt v" by simp
  then show ?thesis using False by linarith
qed

lemma sqrt_times_less_iff:
  "0 \<le> v \<Longrightarrow> 0 < k \<Longrightarrow> sqrt v * k < m \<longleftrightarrow> 0 < m \<and> v * k\<^sup>2 < m\<^sup>2"
proof -
  assume v: "0 \<le> v" and k: "0 < k"
  have "sqrt (v * k\<^sup>2) = sqrt v * k" using k by (simp add: real_sqrt_mult)
  moreover have "0 \<le> v * k\<^sup>2" using v by simp
  ultimately show ?thesis using sqrt_less_iff [of "v * k\<^sup>2" m] by simp
qed

lemma less_sqrt_times_iff:
  "0 \<le> v \<Longrightarrow> 0 < k \<Longrightarrow> m < sqrt v * k \<longleftrightarrow> m < 0 \<or> m\<^sup>2 < v * k\<^sup>2"
proof -
  assume v: "0 \<le> v" and k: "0 < k"
  have "sqrt (v * k\<^sup>2) = sqrt v * k" using k by (simp add: real_sqrt_mult)
  moreover have "0 \<le> v * k\<^sup>2" using v by simp
  ultimately show ?thesis using less_sqrt_iff [of "v * k\<^sup>2" m] by simp
qed

lemmas dist_eval = dist2d_def sqrt_less_iff less_sqrt_iff sqrt_times_less_iff less_sqrt_times_iff

lemma layout2:
  "levelWidth 2 = 300" "levelHeight 2 = 420" "levelCellSize 2 = 68" "levelCols 2 = 3"
  "levelRows 2 = 5" "levelOffsetX 2 = 48" "levelOffsetY 2 = 40"
  "levelStart 2 = \<lparr>px = 82, py = 346\<rparr>"
  "levelGoal 2 = \<lparr>goal_x = 218, goal_y = 74, goal_radius = 22\<rparr>"
  by (simp_all add: levelWidth_def levelHeight_def levelCellSize_def levelCols_def levelRows_def
      levelOffsetX_def levelOffsetY_def levelStart_def levelGoal_def getDifficulty_def)

lemma maze2:
  "case levelMaze 2 of (g, s) \<Rightarrow> deadEndCells g 3 5 = [(1, 2), (3, 1), (4, 0)] \<and> s = 88887"
  by (simp add: levelMaze_def layout2 random_def generateMazeGrid_def carved_grid_def rng_next_def
      rng_floor_div grid_lookup getUnvisitedNeighbors_def removeWallBetween_def Let_def
      deadEndCells_def wallCount_def upt_rec)

lemmas placeHole_numeral = placeHole.simps(2) [of "pred_numeral k", folded numeral_eq_Suc] for k

lemma holes2:
  "generateHoles 3 5 68 48 40 (getDifficulty 2) \<lparr>px = 82, py = 346\<rparr>
      \<lparr>goal_x = 218, goal_y = 74, goal_radius = 22\<rparr> 88887
     = ([\<lparr>hole_x = 82, hole_y = 142, hole_radius = 12\<rparr>], 170538)"
  by (simp add: generateHoles_def getDifficulty_def placeHole_numeral rng_next_def rng_floor_div
      cell_centre_def dist_eval Let_def)

lemmas shuffleLoop_numeral = shuffleLoop.simps(2) [of "pred_numeral k", folded numeral_eq_Suc] for k

lemma coins2:
  assumes "deadEndCells g 3 5 = [(1, 2), (3, 1), (4, 0)]"
  shows "generateCoins 2 g 3 5 68 48 40 \<lparr>px = 82, py = 346\<rparr>
           \<lparr>goal_x = 218, goal_y = 74, goal_radius = 22\<rparr> 170538
         = Some ([\<lparr>px = 150, py = 278\<rparr>, \<lparr>px = 82, py = 74\<rparr>, \<lparr>px = 150, py = 74\<rparr>], 44834)"
  by (simp add: generateCoins_def assms shuffle_def shuffleLoop_numeral deadEndCoins_def
      fillCoins.simps rng_next_def rng_floor_div cell_centre_def js_round_def
      dist_eval Let_def)

lemma level2:
  "\<exists>L seed'. generateLevel this_seed 2 = Some (L, seed')
     \<and> coins L = [\<lparr>px = 150, py = 278\<rparr>, \<lparr>px = 82, py = 74\<rparr>, \<lparr>px = 150, py = 74\<rparr>]
     \<and> holes L = [\<lparr>hole_x = 82, hole_y = 142, hole_radius = 12\<rparr>]
     \<and> start L = Some \<lparr>px = 82, py = 346\<rparr>"
proof -
  obtain g where m: "levelMaze 2 = (g, 88887)" and d: "deadEndCells g 3 5 = [(1, 2), (3, 1), (4, 0)]"
    using maze2 by (cases "levelMaze 2") auto
  show ?thesis
    by (simp add: generateLevel_def m layout2 holes2 coins2 [OF d] Let_def split: prod.split)
qed

section \<open>Determinism\<close>


section \<open>Stars\<close>

lemma generateLevel_starTimes:
  "generateLevel this_seed levelNum = Some (L, seed') \<Longrightarrow> starTimes L = levelStarTimes levelNum"
  by (auto simp: generateLevel_def Let_def split: prod.splits option.splits)

lemma levelStarTimes_ordered:
  "levelStarTimes n ! 2 \<le> levelStarTimes n ! 1 \<and> levelStarTimes n ! 1 \<le> levelStarTimes n ! 0
   \<and> length (levelStarTimes n) = 3"
proof -
  have "real (baseTime n) * 0.4 \<le> real (baseTime n) * 0.65" by simp
  then have 1: "\<lfloor>real (baseTime n) * 0.4\<rfloor> \<le> \<lfloor>real (baseTime n) * 0.65\<rfloor>" by (rule floor_mono)
  have "real (baseTime n) * 0.65 \<le> real (baseTime n)" by simp
  then have 2: "\<lfloor>real (baseTime n) * 0.65\<rfloor> \<le> \<lfloor>real (baseTime n)\<rfloor>" by (rule floor_mono)
  show ?thesis using 1 2 by (simp add: levelStarTimes_def)
qed

text \<open>
  C8. For a generated level, a faster-or-equal time never yields fewer stars, every time
  yields at least one star, and the three thresholds are ordered
  \<open>floor (base * 0.4) \<le> floor (base * 0.65) \<le> floor base\<close>.
\<close>

theorem calculateStars_monotone:
  assumes "generateLevel this_seed levelNum = Some (L, seed')" and "t1 \<le> t2"
  shows "calculateStars (Some L) t2 \<le> calculateStars (Some L) t1
       \<and> 1 \<le> calculateStars (Some L) t
       \<and> starTimes L ! 2 \<le> starTimes L ! 1 \<and> starTimes L ! 1 \<le> starTimes L ! 0
       \<and> starTimes L = [\<lfloor>real (baseTime levelNum)\<rfloor>, \<lfloor>real (baseTime levelNum) * 0.65\<rfloor>,
                         \<lfloor>real (baseTime levelNum) * 0.4\<rfloor>]"
proof -
  have s: "starTimes L = levelStarTimes levelNum" by (rule generateLevel_starTimes [OF assms(1)])
  have o: "starTimes L ! 2 \<le> starTimes L ! 1" "starTimes L ! 1 \<le> starTimes L ! 0"
    "length (starTimes L) = 3"
    using levelStarTimes_ordered [of levelNum] by (simp_all add: s)
  have m: "calculateStars (Some L) t2 \<le> calculateStars (Some L) t1"
    using assms(2) o by (auto simp: calculateStars_def Let_def)
  have p: "1 \<le> calculateStars (Some L) t" by (simp add: calculateStars_def Let_def)
  show ?thesis using m p o(1,2) s by (simp add: levelStarTimes_def)
qed

theorem calculateStars_monotone_witness:
  "\<exists>L seed'. generateLevel 0 2 = Some (L, seed')
     \<and> calculateStars (Some L) 20000 \<le> calculateStars (Some L) 1000
     \<and> starTimes L = [14700, 9555, 5880]"
proof -
  obtain L seed' where g: "generateLevel 0 2 = Some (L, seed')" using level2 [of 0] by blast
  have t: "(1000::real) \<le> 20000" by simp
  have "starTimes L = [14700, 9555, 5880]"
    using calculateStars_monotone [OF g t] by (simp add: baseTime_def getDifficulty_def)
  then show ?thesis using calculateStars_monotone [OF g t] g by blast
qed

section \<open>Placement\<close>

text \<open>
  C9. The claim: no hole, coin, extra life, powerup or bounce pad lies within
  \<open>1.5 * cellSize\<close> of the start, and same-category entities keep their minimum
  separation. The coin checks use \<open>1 * cellSize\<close>: level 2 has its start at \<open>(82, 346)\<close>,
  a cell size of 68 and a coin at \<open>(150, 278)\<close>, the cell diagonal to the start cell, at
  distance \<open>68 * sqrt 2 < 102\<close>.
\<close>

theorem coin_near_start_counterexample:
  "map_option (coins \<circ> fst) (generateLevel 0 2)
     = Some [\<lparr>px = 150, py = 278\<rparr>, \<lparr>px = 82, py = 74\<rparr>, \<lparr>px = 150, py = 74\<rparr>]
   \<and> map_option (start \<circ> fst) (generateLevel 0 2) = Some (Some \<lparr>px = 82, py = 346\<rparr>)
   \<and> levelCellSize 2 = 68
   \<and> dist2d 150 278 82 346 < 1.5 * real (levelCellSize 2)"
proof -
  obtain L seed' where g: "generateLevel 0 2 = Some (L, seed')"
    and c: "coins L = [\<lparr>px = 150, py = 278\<rparr>, \<lparr>px = 82, py = 74\<rparr>, \<lparr>px = 150, py = 74\<rparr>]"
    and s: "start L = Some \<lparr>px = 82, py = 346\<rparr>"
    using level2 [of 0] by blast
  have d: "dist2d 150 278 82 346 < 1.5 * real (levelCellSize 2)"
    by (simp add: layout2 dist_eval)
  show ?thesis using g c s d by (simp add: layout2)
qed

section \<open>Geometry of the cell lattice\<close>

lemma levelCellSize_ge: "50 \<le> levelCellSize n"
  using level_layout [of n] by (auto simp: layouts_def)

lemma js_round_add_nat: "js_round (v + real k) = js_round v + real k"
proof -
  have "v + real k + 1 / 2 = (v + 1 / 2) + of_int (int k)" by simp
  then have "\<lfloor>v + real k + 1 / 2\<rfloor> = \<lfloor>v + 1 / 2\<rfloor> + int k"
    by (simp only: floor_add_int)
  then show ?thesis by (simp add: js_round_def)
qed

lemma js_round_half: "js_round (real_of_int N / 2) = real_of_int ((N + 1) div 2)"
proof -
  have "real_of_int N / 2 + 1 / 2 = real_of_int (N + 1) / real_of_int 2" by simp
  then have "\<lfloor>real_of_int N / 2 + 1 / 2\<rfloor> = (N + 1) div 2"
    by (simp only: floor_divide_of_int_eq)
  then show ?thesis by (simp add: js_round_def)
qed

lemma cell_centre_shift:
  "cell_centre offset cellSize i = cell_centre offset cellSize 0 + real (i * cellSize)"
  by (simp add: cell_centre_def)

lemma js_round_cell_centre:
  "js_round (cell_centre offset cellSize i) =
     js_round (cell_centre offset cellSize 0) + real (i * cellSize)"
  by (subst cell_centre_shift) (rule js_round_add_nat)

text \<open>
  The centre of cell 0 is half of a whole number on both axes; on the vertical axis that
  number is even in every layout. So rounding leaves the rows where they are and moves a
  column by 0 or by 1/2 to the right.
\<close>

lemma centre0_half:
  "cell_centre (levelOffsetX n) (levelCellSize n) 0
     = real_of_int (int (levelWidth n) - int (levelCols n * levelCellSize n) + int (levelCellSize n)) / 2"
  "cell_centre (levelOffsetY n) (levelCellSize n) 0
     = real_of_int (int (levelHeight n) - int (levelRows n * levelCellSize n) + int (levelCellSize n)) / 2"
  by (simp_all add: cell_centre_def levelOffsetX_def levelOffsetY_def field_simps)

lemma row_centre_even:
  "even (int (levelHeight n) - int (levelRows n * levelCellSize n) + int (levelCellSize n))"
  using level_layout [of n] by (auto simp: layouts_def)

lemma js_round_int: "js_round (real_of_int z) = real_of_int z"
proof -
  have "\<lfloor>real_of_int z + 1 / 2\<rfloor> = z" by linarith
  then show ?thesis by (simp add: js_round_def)
qed

lemma round_row:
  "js_round (cell_centre (levelOffsetY n) (levelCellSize n) j)
     = cell_centre (levelOffsetY n) (levelCellSize n) j"
proof -
  define N where "N = int (levelHeight n) - int (levelRows n * levelCellSize n) + int (levelCellSize n)"
  obtain z where z: "N = 2 * z" using row_centre_even [of n] unfolding N_def by (rule evenE)
  have "cell_centre (levelOffsetY n) (levelCellSize n) 0 = real_of_int N / 2"
    unfolding N_def by (rule centre0_half)
  then have c0: "cell_centre (levelOffsetY n) (levelCellSize n) 0 = real_of_int z"
    by (simp add: z)
  have "js_round (cell_centre (levelOffsetY n) (levelCellSize n) 0)
      = cell_centre (levelOffsetY n) (levelCellSize n) 0"
    by (simp only: c0 js_round_int)
  then show ?thesis
    using js_round_cell_centre [of "levelOffsetY n" "levelCellSize n" j]
      cell_centre_shift [of "levelOffsetY n" "levelCellSize n" j] by simp
qed

definition round_shift :: "nat \<Rightarrow> real" where
  "round_shift n = js_round (cell_centre (levelOffsetX n) (levelCellSize n) 0)
                   - cell_centre (levelOffsetX n) (levelCellSize n) 0"

lemma round_shift_bounds: "0 \<le> round_shift n \<and> round_shift n \<le> 1 / 2"
proof -
  define N where "N = int (levelWidth n) - int (levelCols n * levelCellSize n) + int (levelCellSize n)"
  define k where "k = (N + 1) div 2"
  have h: "N \<le> 2 * k" "2 * k \<le> N + 1" unfolding k_def by presburger+
  have r: "real_of_int N \<le> 2 * real_of_int k" "2 * real_of_int k \<le> real_of_int N + 1"
    using h by linarith+
  have "cell_centre (levelOffsetX n) (levelCellSize n) 0 = real_of_int N / 2"
    unfolding N_def by (rule centre0_half)
  then have "round_shift n = real_of_int k - real_of_int N / 2"
    by (simp only: round_shift_def js_round_half k_def)
  then show ?thesis using r by linarith
qed

lemma round_col:
  "js_round (cell_centre (levelOffsetX n) (levelCellSize n) i)
     = cell_centre (levelOffsetX n) (levelCellSize n) i + round_shift n"
  using js_round_cell_centre [of "levelOffsetX n" "levelCellSize n" i]
    cell_centre_shift [of "levelOffsetX n" "levelCellSize n" i]
  by (simp add: round_shift_def)

lemma levelStart_cell:
  "px (levelStart n) = cell_centre (levelOffsetX n) (levelCellSize n) 0"
  "py (levelStart n) = cell_centre (levelOffsetY n) (levelCellSize n) (levelRows n - 1)"
  by (simp_all add: levelStart_def cell_centre_def)

text \<open>Comparisons of distances, without the square root.\<close>

lemma not_dist2d_less_iff:
  "0 \<le> d \<Longrightarrow> \<not> dist2d x1 y1 x2 y2 < d \<longleftrightarrow> d\<^sup>2 \<le> (x1 - x2)\<^sup>2 + (y1 - y2)\<^sup>2"
proof -
  assume d: "0 \<le> d"
  have "0 \<le> (x1 - x2)\<^sup>2 + (y1 - y2)\<^sup>2" by simp
  then have "sqrt ((x1 - x2)\<^sup>2 + (y1 - y2)\<^sup>2) < d \<longleftrightarrow> (x1 - x2)\<^sup>2 + (y1 - y2)\<^sup>2 < d\<^sup>2"
    using d by (cases "d = 0") (simp_all add: sqrt_less_iff)
  then show ?thesis by (auto simp: dist2d_def)
qed

text \<open>Rounding a position does not bring it closer to the start cell (the leftmost column).\<close>

lemma round_keeps_start_distance:
  assumes "0 \<le> d"
    and "\<not> dist2d (cell_centre (levelOffsetX n) (levelCellSize n) i)
              (cell_centre (levelOffsetY n) (levelCellSize n) j)
              (px (levelStart n)) (py (levelStart n)) < d"
  shows "\<not> dist2d (js_round (cell_centre (levelOffsetX n) (levelCellSize n) i))
              (js_round (cell_centre (levelOffsetY n) (levelCellSize n) j))
              (px (levelStart n)) (py (levelStart n)) < d"
proof -
  let ?X = "cell_centre (levelOffsetX n) (levelCellSize n)"
  let ?Y = "cell_centre (levelOffsetY n) (levelCellSize n)"
  have a: "0 \<le> ?X i - ?X 0" by (simp add: cell_centre_def)
  have e: "0 \<le> round_shift n" using round_shift_bounds by simp
  have "(?X i - ?X 0)\<^sup>2 \<le> (?X i + round_shift n - ?X 0)\<^sup>2"
    by (rule power_mono) (use a e in simp_all)
  then show ?thesis
    using assms by (simp add: not_dist2d_less_iff round_row round_col levelStart_cell)
qed

text \<open>
  Two cell centres after rounding, and a cell centre before rounding against one after:
  the column and row differences are whole numbers of cells.
\<close>

lemma rounded_gap:
  "js_round (cell_centre (levelOffsetX n) (levelCellSize n) i)
     - js_round (cell_centre (levelOffsetX n) (levelCellSize n) i')
     = real (levelCellSize n) * real_of_int (int i - int i')"
  "cell_centre (levelOffsetX n) (levelCellSize n) i
     - js_round (cell_centre (levelOffsetX n) (levelCellSize n) i')
     = real (levelCellSize n) * real_of_int (int i - int i') - round_shift n"
  "js_round (cell_centre (levelOffsetY n) (levelCellSize n) j)
     - js_round (cell_centre (levelOffsetY n) (levelCellSize n) j')
     = real (levelCellSize n) * real_of_int (int j - int j')"
  "cell_centre (levelOffsetY n) (levelCellSize n) j
     - js_round (cell_centre (levelOffsetY n) (levelCellSize n) j')
     = real (levelCellSize n) * real_of_int (int j - int j')"
  by (simp_all add: round_row round_col) (simp_all add: cell_centre_def algebra_simps)

lemma int_square_small:
  assumes "(real_of_int a)\<^sup>2 + (real_of_int b)\<^sup>2 < 4"
  shows "a \<in> {-1, 0, 1} \<and> b \<in> {-1, 0, 1}"
proof -
  have small: "\<bar>d\<bar> < 2" if "d * d < 4" for d :: int
  proof (rule ccontr)
    assume "\<not> \<bar>d\<bar> < 2"
    then have "2 \<le> \<bar>d\<bar>" by simp
    then have "2 * 2 \<le> \<bar>d\<bar> * \<bar>d\<bar>" by (intro mult_mono) simp_all
    then show False using that by (simp add: abs_mult_self_eq)
  qed
  have "real_of_int (a * a) + real_of_int (b * b) < 4"
    using assms by (simp add: power2_eq_square)
  moreover have "0 \<le> real_of_int (a * a)" "0 \<le> real_of_int (b * b)" by simp_all
  ultimately have "real_of_int (a * a) < 4" "real_of_int (b * b) < 4"
    by linarith+
  then have "a * a < 4" "b * b < 4" by linarith+
  then have "\<bar>a\<bar> < 2" "\<bar>b\<bar> < 2" by (simp_all add: small)
  then show ?thesis by auto
qed

text \<open>
  The separation check compares the candidate before rounding with the stored, rounded
  entity, \<open>e\<close> being the shift of the rounding. If the check passes for 0.8, 1.5 or 2 cell
  sizes, the two rounded positions are that far apart.
\<close>

lemma shifted_square_bound:
  fixes c e :: real and a b :: int
  assumes "50 \<le> c" "0 \<le> e" "e \<le> 1 / 2" "a \<in> {-1, 0, 1}" "b \<in> {-1, 0, 1}"
  shows "(c * real_of_int a - e)\<^sup>2 + (c * real_of_int b)\<^sup>2 \<le> 2 * (c * c) + c + 1 / 4"
proof -
  have e2: "e * e \<le> 1 / 4"
    using mult_mono [of e "1 / 2" e "1 / 2"] assms(2,3) by simp
  have ce: "0 \<le> c * e" "c * e \<le> c / 2" using assms(1,2,3) by (simp_all add: mult_left_mono)
  have cc: "0 \<le> c * c" "0 \<le> e * e" by simp_all
  have x1: "(c * 1 - e)\<^sup>2 = c * c - 2 * (c * e) + e * e"
    by (simp add: power2_eq_square algebra_simps)
  have x2: "(c * (- 1) - e)\<^sup>2 = c * c + 2 * (c * e) + e * e"
    by (simp add: power2_eq_square algebra_simps)
  have x3: "(c * 0 - e)\<^sup>2 = e * e" by (simp add: power2_eq_square)
  have A: "(c * real_of_int a - e)\<^sup>2 \<le> c * c + c + 1 / 4"
  proof -
    from assms(4) consider "a = 1" | "a = - 1" | "a = 0" by auto
    then show ?thesis
    proof cases
      case 1 then show ?thesis using x1 e2 ce cc assms(1) by (simp; linarith)
    next
      case 2 then show ?thesis using x2 e2 ce cc assms(1) by (simp; linarith)
    next
      case 3 then show ?thesis using x3 e2 ce cc assms(1) by (simp; linarith)
    qed
  qed
  have B: "(c * real_of_int b)\<^sup>2 \<le> c * c"
    using assms(5) cc by (auto simp: power2_eq_square)
  show ?thesis using A B by linarith
qed

lemma cell_gap_small:
  fixes c :: real and a b :: int
  assumes "50 \<le> c" "(c * real_of_int a)\<^sup>2 + (c * real_of_int b)\<^sup>2 < c\<^sup>2 * q" "q \<le> 4"
  shows "a \<in> {-1, 0, 1} \<and> b \<in> {-1, 0, 1} \<and> (real_of_int a)\<^sup>2 + (real_of_int b)\<^sup>2 < q"
proof -
  have cpos: "0 < c\<^sup>2" using assms(1) by simp
  have "c\<^sup>2 * ((real_of_int a)\<^sup>2 + (real_of_int b)\<^sup>2) < c\<^sup>2 * q"
    using assms(2) by (simp add: power_mult_distrib algebra_simps)
  then have n: "(real_of_int a)\<^sup>2 + (real_of_int b)\<^sup>2 < q"
    using cpos by (simp only: mult_less_cancel_left_pos)
  then show ?thesis using int_square_small [of a b] assms(3) by simp
qed

lemma apart_08:
  fixes c e :: real and a b :: int
  assumes "50 \<le> c" "0 \<le> e" "e \<le> 1 / 2"
    and chk: "c\<^sup>2 * (64 / 100) \<le> (c * real_of_int a - e)\<^sup>2 + (c * real_of_int b)\<^sup>2"
  shows "c\<^sup>2 * (64 / 100) \<le> (c * real_of_int a)\<^sup>2 + (c * real_of_int b)\<^sup>2"
proof (rule ccontr)
  assume "\<not> ?thesis"
  then have "(c * real_of_int a)\<^sup>2 + (c * real_of_int b)\<^sup>2 < c\<^sup>2 * (64 / 100)" by simp
  from cell_gap_small [OF assms(1) this]
  have ab: "a \<in> {-1, 0, 1}" "b \<in> {-1, 0, 1}" "(real_of_int a)\<^sup>2 + (real_of_int b)\<^sup>2 < 64 / 100"
    by simp_all
  then have z: "a = 0" "b = 0" by auto
  have e2: "e * e \<le> 1 / 4" using mult_mono [of e "1 / 2" e "1 / 2"] assms(2,3) by simp
  have c2: "50 * 50 \<le> c * c" using assms(1) by (intro mult_mono) simp_all
  have p: "c\<^sup>2 = c * c" by (simp add: power2_eq_square)
  have "(c * real_of_int a - e)\<^sup>2 + (c * real_of_int b)\<^sup>2 = e * e"
    by (simp add: z power2_eq_square)
  then show False using chk e2 c2 p by linarith
qed

lemma apart_15:
  fixes c e :: real and a b :: int
  assumes "50 \<le> c" "0 \<le> e" "e \<le> 1 / 2"
    and chk: "c\<^sup>2 * (225 / 100) \<le> (c * real_of_int a - e)\<^sup>2 + (c * real_of_int b)\<^sup>2"
  shows "c\<^sup>2 * (225 / 100) \<le> (c * real_of_int a)\<^sup>2 + (c * real_of_int b)\<^sup>2"
proof (rule ccontr)
  assume "\<not> ?thesis"
  then have "(c * real_of_int a)\<^sup>2 + (c * real_of_int b)\<^sup>2 < c\<^sup>2 * (225 / 100)" by simp
  from cell_gap_small [OF assms(1) this]
  have ab: "a \<in> {-1, 0, 1}" "b \<in> {-1, 0, 1}" by simp_all
  have up: "(c * real_of_int a - e)\<^sup>2 + (c * real_of_int b)\<^sup>2 \<le> 2 * (c * c) + c + 1 / 4"
    by (rule shifted_square_bound [OF assms(1,2,3) ab])
  have c2: "50 * c \<le> c * c" using assms(1) by (intro mult_right_mono) simp_all
  have p: "c\<^sup>2 = c * c" by (simp add: power2_eq_square)
  show False using chk up assms(1) c2 p by linarith
qed

lemma apart_2:
  fixes c e :: real and a b :: int
  assumes "50 \<le> c" "0 \<le> e" "e \<le> 1 / 2"
    and chk: "c\<^sup>2 * 4 \<le> (c * real_of_int a - e)\<^sup>2 + (c * real_of_int b)\<^sup>2"
  shows "c\<^sup>2 * 4 \<le> (c * real_of_int a)\<^sup>2 + (c * real_of_int b)\<^sup>2"
proof (rule ccontr)
  assume "\<not> ?thesis"
  then have "(c * real_of_int a)\<^sup>2 + (c * real_of_int b)\<^sup>2 < c\<^sup>2 * 4" by simp
  from cell_gap_small [OF assms(1) this]
  have ab: "a \<in> {-1, 0, 1}" "b \<in> {-1, 0, 1}" by simp_all
  have up: "(c * real_of_int a - e)\<^sup>2 + (c * real_of_int b)\<^sup>2 \<le> 2 * (c * c) + c + 1 / 4"
    by (rule shifted_square_bound [OF assms(1,2,3) ab])
  have c2: "50 * c \<le> c * c" using assms(1) by (intro mult_right_mono) simp_all
  have p: "c\<^sup>2 = c * c" by (simp add: power2_eq_square)
  show False using chk up assms(1) c2 p by linarith
qed

section \<open>Placement invariants\<close>

text \<open>
  \<open>placed P R xs\<close>: every entity of the list satisfies \<open>P\<close>, and \<open>R\<close> holds between every
  entity and every later one.
\<close>

definition placed :: "('a \<Rightarrow> bool) \<Rightarrow> ('a \<Rightarrow> 'a \<Rightarrow> bool) \<Rightarrow> 'a list \<Rightarrow> bool" where
  "placed P R xs \<longleftrightarrow> (\<forall>e \<in> set xs. P e) \<and> sorted_wrt R xs"

lemma placed_Nil: "placed P R []"
  by (simp add: placed_def)

lemma placed_snoc:
  "placed P R xs \<Longrightarrow> P x \<Longrightarrow> (\<forall>e \<in> set xs. R e x) \<Longrightarrow> placed P R (xs @ [x])"
  by (auto simp: placed_def sorted_wrt_append)

lemma placed_nth:
  "placed P R xs \<Longrightarrow> i < j \<Longrightarrow> j < length xs \<Longrightarrow> R (xs ! i) (xs ! j)"
  by (simp add: placed_def sorted_wrt_iff_nth_less)

lemma dist2d_commute: "dist2d x1 y1 x2 y2 = dist2d x2 y2 x1 y1"
  by (simp add: dist2d_def power2_commute)

text \<open>A position is on a cell when it is the rounded centre of a cell.\<close>

definition on_cell :: "nat \<Rightarrow> real \<Rightarrow> real \<Rightarrow> bool" where
  "on_cell n x y \<longleftrightarrow>
     (\<exists>i j. x = js_round (cell_centre (levelOffsetX n) (levelCellSize n) i)
          \<and> y = js_round (cell_centre (levelOffsetY n) (levelCellSize n) j))"

lemma on_cell_round:
  "on_cell n (js_round (cell_centre (levelOffsetX n) (levelCellSize n) i))
             (js_round (cell_centre (levelOffsetY n) (levelCellSize n) j))"
  unfolding on_cell_def by blast

lemma rounded_apart_core:
  fixes q d :: real
  assumes oc: "on_cell n x y"
    and d0: "0 \<le> d" and d2: "d\<^sup>2 = (real (levelCellSize n))\<^sup>2 * q"
    and ap: "\<And>a b :: int.
        (real (levelCellSize n))\<^sup>2 * q
          \<le> (real (levelCellSize n) * real_of_int a - round_shift n)\<^sup>2
             + (real (levelCellSize n) * real_of_int b)\<^sup>2 \<Longrightarrow>
        (real (levelCellSize n))\<^sup>2 * q
          \<le> (real (levelCellSize n) * real_of_int a)\<^sup>2 + (real (levelCellSize n) * real_of_int b)\<^sup>2"
    and chk: "\<not> dist2d (cell_centre (levelOffsetX n) (levelCellSize n) i)
                 (cell_centre (levelOffsetY n) (levelCellSize n) j) x y < d"
  shows "\<not> dist2d x y (js_round (cell_centre (levelOffsetX n) (levelCellSize n) i))
                 (js_round (cell_centre (levelOffsetY n) (levelCellSize n) j)) < d"
proof -
  let ?c = "real (levelCellSize n)"
  obtain i' j' where x: "x = js_round (cell_centre (levelOffsetX n) (levelCellSize n) i')"
    and y: "y = js_round (cell_centre (levelOffsetY n) (levelCellSize n) j')"
    using oc unfolding on_cell_def by blast
  let ?a = "int i - int i'" and ?b = "int j - int j'"
  have "d\<^sup>2 \<le> (?c * real_of_int ?a - round_shift n)\<^sup>2 + (?c * real_of_int ?b)\<^sup>2"
    using chk d0 unfolding x y by (simp only: not_dist2d_less_iff rounded_gap)
  then have "?c\<^sup>2 * q \<le> (?c * real_of_int ?a - round_shift n)\<^sup>2 + (?c * real_of_int ?b)\<^sup>2"
    by (simp only: d2)
  then have "?c\<^sup>2 * q \<le> (?c * real_of_int ?a)\<^sup>2 + (?c * real_of_int ?b)\<^sup>2" by (rule ap)
  then have "d\<^sup>2 \<le> (?c * real_of_int ?a)\<^sup>2 + (?c * real_of_int ?b)\<^sup>2" by (simp only: d2)
  then have "\<not> dist2d (js_round (cell_centre (levelOffsetX n) (levelCellSize n) i))
                 (js_round (cell_centre (levelOffsetY n) (levelCellSize n) j)) x y < d"
    using d0 unfolding x y by (simp only: not_dist2d_less_iff rounded_gap)
  then show ?thesis by (subst dist2d_commute)
qed

lemma level_cell_facts:
  "50 \<le> real (levelCellSize n)" "0 \<le> round_shift n" "round_shift n \<le> 1 / 2"
  using levelCellSize_ge [of n] round_shift_bounds [of n] by simp_all

lemma rounded_apart_08:
  assumes "on_cell n x y"
    and "\<not> dist2d (cell_centre (levelOffsetX n) (levelCellSize n) i)
              (cell_centre (levelOffsetY n) (levelCellSize n) j) x y < real (levelCellSize n) * 0.8"
  shows "\<not> dist2d x y (js_round (cell_centre (levelOffsetX n) (levelCellSize n) i))
              (js_round (cell_centre (levelOffsetY n) (levelCellSize n) j)) < real (levelCellSize n) * 0.8"
proof (rule rounded_apart_core [OF assms(1) _ _ _ assms(2), where q = "64 / 100"])
  show "0 \<le> real (levelCellSize n) * 0.8" by simp
  show "(real (levelCellSize n) * 0.8)\<^sup>2 = (real (levelCellSize n))\<^sup>2 * (64 / 100)"
    by (simp add: power2_eq_square)
  show "\<And>a b :: int.
        (real (levelCellSize n))\<^sup>2 * (64 / 100)
          \<le> (real (levelCellSize n) * real_of_int a - round_shift n)\<^sup>2
             + (real (levelCellSize n) * real_of_int b)\<^sup>2 \<Longrightarrow>
        (real (levelCellSize n))\<^sup>2 * (64 / 100)
          \<le> (real (levelCellSize n) * real_of_int a)\<^sup>2 + (real (levelCellSize n) * real_of_int b)\<^sup>2"
    by (rule apart_08 [OF level_cell_facts])
qed

lemma rounded_apart_15:
  assumes "on_cell n x y"
    and "\<not> dist2d (cell_centre (levelOffsetX n) (levelCellSize n) i)
              (cell_centre (levelOffsetY n) (levelCellSize n) j) x y < real (levelCellSize n) * 1.5"
  shows "\<not> dist2d x y (js_round (cell_centre (levelOffsetX n) (levelCellSize n) i))
              (js_round (cell_centre (levelOffsetY n) (levelCellSize n) j)) < real (levelCellSize n) * 1.5"
proof (rule rounded_apart_core [OF assms(1) _ _ _ assms(2), where q = "225 / 100"])
  show "0 \<le> real (levelCellSize n) * 1.5" by simp
  show "(real (levelCellSize n) * 1.5)\<^sup>2 = (real (levelCellSize n))\<^sup>2 * (225 / 100)"
    by (simp add: power2_eq_square)
  show "\<And>a b :: int.
        (real (levelCellSize n))\<^sup>2 * (225 / 100)
          \<le> (real (levelCellSize n) * real_of_int a - round_shift n)\<^sup>2
             + (real (levelCellSize n) * real_of_int b)\<^sup>2 \<Longrightarrow>
        (real (levelCellSize n))\<^sup>2 * (225 / 100)
          \<le> (real (levelCellSize n) * real_of_int a)\<^sup>2 + (real (levelCellSize n) * real_of_int b)\<^sup>2"
    by (rule apart_15 [OF level_cell_facts])
qed

lemma rounded_apart_2:
  assumes "on_cell n x y"
    and "\<not> dist2d (cell_centre (levelOffsetX n) (levelCellSize n) i)
              (cell_centre (levelOffsetY n) (levelCellSize n) j) x y < real (levelCellSize n) * 2"
  shows "\<not> dist2d x y (js_round (cell_centre (levelOffsetX n) (levelCellSize n) i))
              (js_round (cell_centre (levelOffsetY n) (levelCellSize n) j)) < real (levelCellSize n) * 2"
proof (rule rounded_apart_core [OF assms(1) _ _ _ assms(2), where q = 4])
  show "0 \<le> real (levelCellSize n) * 2" by simp
  show "(real (levelCellSize n) * 2)\<^sup>2 = (real (levelCellSize n))\<^sup>2 * 4"
    by (simp add: power2_eq_square)
  show "\<And>a b :: int.
        (real (levelCellSize n))\<^sup>2 * 4
          \<le> (real (levelCellSize n) * real_of_int a - round_shift n)\<^sup>2
             + (real (levelCellSize n) * real_of_int b)\<^sup>2 \<Longrightarrow>
        (real (levelCellSize n))\<^sup>2 * 4
          \<le> (real (levelCellSize n) * real_of_int a)\<^sup>2 + (real (levelCellSize n) * real_of_int b)\<^sup>2"
    by (rule apart_2 [OF level_cell_facts])
qed

lemma int_sq_ge1: "(a::int) \<noteq> 0 \<Longrightarrow> 1 \<le> a * a"
proof -
  assume "a \<noteq> 0"
  then have "1 \<le> \<bar>a\<bar>" by simp
  then have "1 * 1 \<le> \<bar>a\<bar> * \<bar>a\<bar>" by (intro mult_mono) simp_all
  then show ?thesis by (simp add: abs_mult_self_eq)
qed

text \<open>Two different cells: their rounded centres are at least a cell size apart.\<close>

lemma cells_apart:
  assumes "(i, j) \<noteq> (i', j')"
  shows "\<not> dist2d (js_round (cell_centre (levelOffsetX n) (levelCellSize n) i))
                 (js_round (cell_centre (levelOffsetY n) (levelCellSize n) j))
                 (js_round (cell_centre (levelOffsetX n) (levelCellSize n) i'))
                 (js_round (cell_centre (levelOffsetY n) (levelCellSize n) j')) < real (levelCellSize n) * 0.8"
proof -
  let ?c = "real (levelCellSize n)"
  let ?a = "int i - int i'" and ?b = "int j - int j'"
  have c: "50 \<le> ?c" using levelCellSize_ge [of n] by simp
  have "?a \<noteq> 0 \<or> ?b \<noteq> 0" using assms by auto
  then have "1 \<le> ?a * ?a \<or> 1 \<le> ?b * ?b"
    using int_sq_ge1 by blast
  moreover have "0 \<le> ?a * ?a" "0 \<le> ?b * ?b" by simp_all
  ultimately have "1 \<le> ?a * ?a + ?b * ?b" by linarith
  then have "real_of_int 1 \<le> real_of_int (?a * ?a + ?b * ?b)" by (simp only: of_int_le_iff)
  then have n1: "1 \<le> (real_of_int ?a)\<^sup>2 + (real_of_int ?b)\<^sup>2" by (simp add: power2_eq_square)
  have "?c\<^sup>2 * 1 \<le> ?c\<^sup>2 * ((real_of_int ?a)\<^sup>2 + (real_of_int ?b)\<^sup>2)"
    by (rule mult_left_mono [OF n1]) simp
  moreover have "(?c * real_of_int ?a)\<^sup>2 + (?c * real_of_int ?b)\<^sup>2
      = ?c\<^sup>2 * ((real_of_int ?a)\<^sup>2 + (real_of_int ?b)\<^sup>2)"
    by (simp only: power_mult_distrib distrib_left)
  ultimately have "?c\<^sup>2 \<le> (?c * real_of_int ?a)\<^sup>2 + (?c * real_of_int ?b)\<^sup>2"
    by simp
  moreover have "(?c * 0.8)\<^sup>2 \<le> ?c\<^sup>2" by (simp add: power2_eq_square)
  ultimately have "(?c * 0.8)\<^sup>2 \<le> (?c * real_of_int ?a)\<^sup>2 + (?c * real_of_int ?b)\<^sup>2" by linarith
  moreover have "0 \<le> ?c * 0.8" by simp
  ultimately show ?thesis by (simp only: not_dist2d_less_iff rounded_gap)
qed

subsection \<open>Holes\<close>

definition hole_ok :: "nat \<Rightarrow> hole \<Rightarrow> bool" where
  "hole_ok n h \<longleftrightarrow>
     \<not> dist2d (hole_x h) (hole_y h) (px (levelStart n)) (py (levelStart n))
         < real (levelCellSize n) * 1.5"

definition hole_sep :: "nat \<Rightarrow> hole \<Rightarrow> hole \<Rightarrow> bool" where
  "hole_sep n a b \<longleftrightarrow>
     \<not> dist2d (hole_x a) (hole_y a) (hole_x b) (hole_y b) < real (levelCellSize n)"

lemma placeHole_placed:
  "placeHole k cols rows (levelCellSize n) (levelOffsetX n) (levelOffsetY n) (levelStart n) gl hs seed
      = (hs', seed') \<Longrightarrow>
   placed (hole_ok n) (hole_sep n) hs \<Longrightarrow> placed (hole_ok n) (hole_sep n) hs'"
proof (induction k arbitrary: seed)
  case 0
  then show ?case by simp
next
  case (Suc k)
  let ?s3 = "rng_next (rng_next (rng_next seed))"
  let ?hx = "cell_centre (levelOffsetX n) (levelCellSize n) (rng_floor (rng_next seed) cols)"
  let ?hy = "cell_centre (levelOffsetY n) (levelCellSize n) (rng_floor (rng_next (rng_next seed)) rows)"
  let ?A = "dist2d ?hx ?hy (px (levelStart n)) (py (levelStart n)) < real (levelCellSize n) * 1.5
            \<or> dist2d ?hx ?hy (goal_x gl) (goal_y gl) < real (levelCellSize n) * 1.5"
  let ?B = "\<exists>h \<in> set hs. dist2d ?hx ?hy (hole_x h) (hole_y h) < real (levelCellSize n)"
  let ?new = "\<lparr>hole_x = ?hx, hole_y = ?hy, hole_radius = 10 + real (rng_floor ?s3 4)\<rparr>"
  let ?rec = "placeHole k cols rows (levelCellSize n) (levelOffsetX n) (levelOffsetY n) (levelStart n) gl hs ?s3"
  have eq: "placeHole (Suc k) cols rows (levelCellSize n) (levelOffsetX n) (levelOffsetY n)
              (levelStart n) gl hs seed
            = (if ?A then ?rec else if ?B then ?rec else (hs @ [?new], ?s3))"
    by (simp only: placeHole.simps Let_def)
  show ?case
  proof (cases "?A \<or> ?B")
    case True
    then have "?rec = (hs', seed')" using Suc.prems(1) unfolding eq by (auto split: if_splits)
    then show ?thesis using Suc.IH Suc.prems(2) by blast
  next
    case False
    then have a: "\<not> ?A" and b: "\<not> ?B" by blast+
    have "(hs @ [?new], ?s3) = (hs', seed')"
      using Suc.prems(1) unfolding eq by (simp only: a b if_False)
    then have "hs' = hs @ [?new]" by fast
    moreover have "hole_ok n ?new" using a by (simp add: hole_ok_def)
    moreover have "\<forall>e \<in> set hs. hole_sep n e ?new" using b by (simp add: hole_sep_def dist2d_commute [of ?hx ?hy])
    ultimately show ?thesis using placed_snoc [OF Suc.prems(2)] by simp
  qed
qed

lemma holesLoop_placed:
  "holesLoop k cols rows (levelCellSize n) (levelOffsetX n) (levelOffsetY n) (levelStart n) gl hs seed
      = (hs', seed') \<Longrightarrow>
   placed (hole_ok n) (hole_sep n) hs \<Longrightarrow> placed (hole_ok n) (hole_sep n) hs'"
proof (induction k arbitrary: hs seed)
  case 0
  then show ?case by simp
next
  case (Suc k)
  obtain hs1 s1 where p: "placeHole 30 cols rows (levelCellSize n) (levelOffsetX n) (levelOffsetY n)
      (levelStart n) gl hs seed = (hs1, s1)"
    by (cases "placeHole 30 cols rows (levelCellSize n) (levelOffsetX n) (levelOffsetY n)
      (levelStart n) gl hs seed")
  have 1: "placed (hole_ok n) (hole_sep n) hs1" by (rule placeHole_placed [OF p Suc.prems(2)])
  have "holesLoop k cols rows (levelCellSize n) (levelOffsetX n) (levelOffsetY n) (levelStart n) gl hs1 s1
      = (hs', seed')"
    using Suc.prems(1) p by simp
  then show ?case using Suc.IH 1 by blast
qed

lemma generateHoles_placed:
  "generateHoles cols rows (levelCellSize n) (levelOffsetX n) (levelOffsetY n) d (levelStart n) gl seed
      = (hs, seed') \<Longrightarrow> placed (hole_ok n) (hole_sep n) hs"
  unfolding generateHoles_def by (rule holesLoop_placed [OF _ placed_Nil])


subsection \<open>Powerups\<close>

definition pu_ok :: "nat \<Rightarrow> powerup \<Rightarrow> bool" where
  "pu_ok n p \<longleftrightarrow>
     on_cell n (pu_x p) (pu_y p) \<and>
     \<not> dist2d (pu_x p) (pu_y p) (px (levelStart n)) (py (levelStart n))
         < real (levelCellSize n) * 2"

definition pu_sep :: "nat \<Rightarrow> powerup \<Rightarrow> powerup \<Rightarrow> bool" where
  "pu_sep n a b \<longleftrightarrow>
     \<not> dist2d (pu_x a) (pu_y a) (pu_x b) (pu_y b) < real (levelCellSize n) * 1.5"

lemma placePowerup_placed:
  "placePowerup k types cols rows (levelCellSize n) (levelOffsetX n) (levelOffsetY n) (levelStart n)
      gl hs ps seed = (ps', seed') \<Longrightarrow>
   placed (pu_ok n) (pu_sep n) ps \<Longrightarrow> placed (pu_ok n) (pu_sep n) ps'"
proof (induction k arbitrary: seed)
  case 0
  then show ?case by simp
next
  case (Suc k)
  let ?s2 = "rng_next (rng_next seed)"
  let ?s3 = "rng_next ?s2"
  let ?ux = "cell_centre (levelOffsetX n) (levelCellSize n) (rng_floor (rng_next seed) cols)"
  let ?uy = "cell_centre (levelOffsetY n) (levelCellSize n) (rng_floor ?s2 rows)"
  let ?A = "dist2d ?ux ?uy (px (levelStart n)) (py (levelStart n)) < real (levelCellSize n) * 2
            \<or> dist2d ?ux ?uy (goal_x gl) (goal_y gl) < real (levelCellSize n)"
  let ?B = "\<exists>h \<in> set hs. dist2d ?ux ?uy (hole_x h) (hole_y h) < real (levelCellSize n)"
  let ?C = "\<exists>p \<in> set ps. dist2d ?ux ?uy (pu_x p) (pu_y p) < real (levelCellSize n) * 1.5"
  let ?new = "\<lparr>pu_x = js_round ?ux, pu_y = js_round ?uy,
                pu_type = types ! rng_floor ?s3 (length types), pu_radius = 14\<rparr>"
  let ?rec = "placePowerup k types cols rows (levelCellSize n) (levelOffsetX n) (levelOffsetY n)
                (levelStart n) gl hs ps ?s2"
  have eq: "placePowerup (Suc k) types cols rows (levelCellSize n) (levelOffsetX n) (levelOffsetY n)
              (levelStart n) gl hs ps seed
            = (if ?A then ?rec else if ?B then ?rec else if ?C then ?rec else (ps @ [?new], ?s3))"
    by (simp only: placePowerup.simps Let_def)
  show ?case
  proof (cases "?A \<or> ?B \<or> ?C")
    case True
    then have "?rec = (ps', seed')" using Suc.prems(1) unfolding eq by (auto split: if_splits)
    then show ?thesis using Suc.IH Suc.prems(2) by blast
  next
    case False
    then have a: "\<not> ?A" and b: "\<not> ?B" and c: "\<not> ?C" by blast+
    have "(ps @ [?new], ?s3) = (ps', seed')"
      using Suc.prems(1) unfolding eq by (simp only: a b c if_False)
    then have 1: "ps' = ps @ [?new]" by fast
    have st: "\<not> dist2d ?ux ?uy (px (levelStart n)) (py (levelStart n)) < real (levelCellSize n) * 2"
      using a by blast
    have "\<not> dist2d (js_round ?ux) (js_round ?uy) (px (levelStart n)) (py (levelStart n))
             < real (levelCellSize n) * 2"
      by (rule round_keeps_start_distance [OF _ st]) simp
    then have 2: "pu_ok n ?new" by (simp add: pu_ok_def on_cell_round)
    have 3: "\<forall>e \<in> set ps. pu_sep n e ?new"
    proof
      fix e assume e: "e \<in> set ps"
      then have oc: "on_cell n (pu_x e) (pu_y e)"
        using Suc.prems(2) by (simp add: placed_def pu_ok_def)
      have "\<not> dist2d ?ux ?uy (pu_x e) (pu_y e) < real (levelCellSize n) * 1.5"
        using c e by blast
      then have "\<not> dist2d (pu_x e) (pu_y e) (js_round ?ux) (js_round ?uy)
                    < real (levelCellSize n) * 1.5"
        by (rule rounded_apart_15 [OF oc])
      then show "pu_sep n e ?new" by (simp add: pu_sep_def)
    qed
    show ?thesis unfolding 1 by (rule placed_snoc [OF Suc.prems(2) 2 3])
  qed
qed

lemma powerupsLoop_placed:
  "powerupsLoop k types cols rows (levelCellSize n) (levelOffsetX n) (levelOffsetY n) (levelStart n)
      gl hs ps seed = (ps', seed') \<Longrightarrow>
   placed (pu_ok n) (pu_sep n) ps \<Longrightarrow> placed (pu_ok n) (pu_sep n) ps'"
proof (induction k arbitrary: ps seed)
  case 0
  then show ?case by simp
next
  case (Suc k)
  obtain ps1 s1 where p: "placePowerup 20 types cols rows (levelCellSize n) (levelOffsetX n)
      (levelOffsetY n) (levelStart n) gl hs ps seed = (ps1, s1)"
    by (cases "placePowerup 20 types cols rows (levelCellSize n) (levelOffsetX n)
      (levelOffsetY n) (levelStart n) gl hs ps seed")
  have 1: "placed (pu_ok n) (pu_sep n) ps1" by (rule placePowerup_placed [OF p Suc.prems(2)])
  have "powerupsLoop k types cols rows (levelCellSize n) (levelOffsetX n) (levelOffsetY n)
      (levelStart n) gl hs ps1 s1 = (ps', seed')"
    using Suc.prems(1) p by simp
  then show ?case using Suc.IH 1 by blast
qed

lemma generatePowerups_placed:
  assumes g: "generatePowerups m cols rows (levelCellSize n) (levelOffsetX n) (levelOffsetY n)
      (levelStart n) gl hs seed = (ps, seed')"
  shows "placed (pu_ok n) (pu_sep n) ps"
proof (cases "m < 6")
  case True
  then show ?thesis using g by (auto simp: generatePowerups_def placed_Nil)
next
  case False
  from g have "powerupsLoop (min 3 ((m - 5) div 15 + 1)) (availableTypes m) cols rows (levelCellSize n)
      (levelOffsetX n) (levelOffsetY n) (levelStart n) gl hs [] seed = (ps, seed')"
    using False by (simp only: generatePowerups_def Let_def if_False)
  then show ?thesis by (rule powerupsLoop_placed [OF _ placed_Nil])
qed

subsection \<open>Bounce pads\<close>

definition pad_ok :: "nat \<Rightarrow> bouncePad \<Rightarrow> bool" where
  "pad_ok n p \<longleftrightarrow>
     on_cell n (pad_x p) (pad_y p) \<and>
     \<not> dist2d (pad_x p) (pad_y p) (px (levelStart n)) (py (levelStart n))
         < real (levelCellSize n) * 1.5"

definition pad_sep :: "nat \<Rightarrow> bouncePad \<Rightarrow> bouncePad \<Rightarrow> bool" where
  "pad_sep n a b \<longleftrightarrow>
     \<not> dist2d (pad_x a) (pad_y a) (pad_x b) (pad_y b) < real (levelCellSize n) * 2"

lemma placePad_placed:
  "placePad k cols rows (levelCellSize n) (levelOffsetX n) (levelOffsetY n) (levelStart n)
      gl hs bs seed = (bs', seed') \<Longrightarrow>
   placed (pad_ok n) (pad_sep n) bs \<Longrightarrow> placed (pad_ok n) (pad_sep n) bs'"
proof (induction k arbitrary: seed)
  case 0
  then show ?case by simp
next
  case (Suc k)
  let ?s2 = "rng_next (rng_next seed)"
  let ?s3 = "rng_next ?s2"
  let ?s4 = "rng_next ?s3"
  let ?qx = "cell_centre (levelOffsetX n) (levelCellSize n) (rng_floor (rng_next seed) cols)"
  let ?qy = "cell_centre (levelOffsetY n) (levelCellSize n) (rng_floor ?s2 rows)"
  let ?A = "dist2d ?qx ?qy (px (levelStart n)) (py (levelStart n)) < real (levelCellSize n) * 1.5
            \<or> dist2d ?qx ?qy (goal_x gl) (goal_y gl) < real (levelCellSize n) * 1.5"
  let ?B = "\<exists>h \<in> set hs. dist2d ?qx ?qy (hole_x h) (hole_y h) < real (levelCellSize n) * 0.8"
  let ?C = "\<exists>b \<in> set bs. dist2d ?qx ?qy (pad_x b) (pad_y b) < real (levelCellSize n) * 2"
  let ?new = "\<lparr>pad_x = js_round ?qx, pad_y = js_round ?qy, pad_width = 25, pad_height = 10,
                pad_dir = directions ! rng_floor ?s3 (length directions),
                pad_force = 12 + real (rng_floor ?s4 6)\<rparr>"
  let ?rec = "placePad k cols rows (levelCellSize n) (levelOffsetX n) (levelOffsetY n)
                (levelStart n) gl hs bs ?s2"
  have eq: "placePad (Suc k) cols rows (levelCellSize n) (levelOffsetX n) (levelOffsetY n)
              (levelStart n) gl hs bs seed
            = (if ?A then ?rec else if ?B then ?rec else if ?C then ?rec else (bs @ [?new], ?s4))"
    by (simp only: placePad.simps Let_def)
  show ?case
  proof (cases "?A \<or> ?B \<or> ?C")
    case True
    then have "?rec = (bs', seed')" using Suc.prems(1) unfolding eq by (auto split: if_splits)
    then show ?thesis using Suc.IH Suc.prems(2) by blast
  next
    case False
    then have a: "\<not> ?A" and b: "\<not> ?B" and c: "\<not> ?C" by blast+
    have "(bs @ [?new], ?s4) = (bs', seed')"
      using Suc.prems(1) unfolding eq by (simp only: a b c if_False)
    then have 1: "bs' = bs @ [?new]" by fast
    have st: "\<not> dist2d ?qx ?qy (px (levelStart n)) (py (levelStart n)) < real (levelCellSize n) * 1.5"
      using a by blast
    have "\<not> dist2d (js_round ?qx) (js_round ?qy) (px (levelStart n)) (py (levelStart n))
             < real (levelCellSize n) * 1.5"
      by (rule round_keeps_start_distance [OF _ st]) simp
    then have 2: "pad_ok n ?new" by (simp add: pad_ok_def on_cell_round)
    have 3: "\<forall>e \<in> set bs. pad_sep n e ?new"
    proof
      fix e assume e: "e \<in> set bs"
      then have oc: "on_cell n (pad_x e) (pad_y e)"
        using Suc.prems(2) by (simp add: placed_def pad_ok_def)
      have "\<not> dist2d ?qx ?qy (pad_x e) (pad_y e) < real (levelCellSize n) * 2"
        using c e by blast
      then have "\<not> dist2d (pad_x e) (pad_y e) (js_round ?qx) (js_round ?qy)
                    < real (levelCellSize n) * 2"
        by (rule rounded_apart_2 [OF oc])
      then show "pad_sep n e ?new" by (simp add: pad_sep_def)
    qed
    show ?thesis unfolding 1 by (rule placed_snoc [OF Suc.prems(2) 2 3])
  qed
qed

lemma padsLoop_placed:
  "padsLoop k cols rows (levelCellSize n) (levelOffsetX n) (levelOffsetY n) (levelStart n)
      gl hs bs seed = (bs', seed') \<Longrightarrow>
   placed (pad_ok n) (pad_sep n) bs \<Longrightarrow> placed (pad_ok n) (pad_sep n) bs'"
proof (induction k arbitrary: bs seed)
  case 0
  then show ?case by simp
next
  case (Suc k)
  obtain bs1 s1 where p: "placePad 20 cols rows (levelCellSize n) (levelOffsetX n)
      (levelOffsetY n) (levelStart n) gl hs bs seed = (bs1, s1)"
    by (cases "placePad 20 cols rows (levelCellSize n) (levelOffsetX n)
      (levelOffsetY n) (levelStart n) gl hs bs seed")
  have 1: "placed (pad_ok n) (pad_sep n) bs1" by (rule placePad_placed [OF p Suc.prems(2)])
  have "padsLoop k cols rows (levelCellSize n) (levelOffsetX n) (levelOffsetY n)
      (levelStart n) gl hs bs1 s1 = (bs', seed')"
    using Suc.prems(1) p by simp
  then show ?case using Suc.IH 1 by blast
qed

lemma generateBouncePads_placed:
  assumes g: "generateBouncePads m cols rows (levelCellSize n) (levelOffsetX n) (levelOffsetY n)
      (levelStart n) gl hs seed = (bs, seed')"
  shows "placed (pad_ok n) (pad_sep n) bs"
proof (cases "m < 11")
  case True
  then show ?thesis using g by (auto simp: generateBouncePads_def placed_Nil)
next
  case False
  from g have "padsLoop (min 4 ((m - 10) div 12 + 1)) cols rows (levelCellSize n)
      (levelOffsetX n) (levelOffsetY n) (levelStart n) gl hs [] seed = (bs, seed')"
    using False by (simp only: generateBouncePads_def Let_def if_False)
  then show ?thesis by (rule padsLoop_placed [OF _ placed_Nil])
qed

subsection \<open>Coins\<close>

definition coin_ok :: "nat \<Rightarrow> point \<Rightarrow> bool" where
  "coin_ok n c \<longleftrightarrow>
     on_cell n (px c) (py c) \<and>
     \<not> dist2d (px c) (py c) (px (levelStart n)) (py (levelStart n)) < real (levelCellSize n)"

definition coin_sep :: "nat \<Rightarrow> point \<Rightarrow> point \<Rightarrow> bool" where
  "coin_sep n a b \<longleftrightarrow>
     \<not> dist2d (px a) (py a) (px b) (py b) < real (levelCellSize n) * 0.8"

text \<open>The dead ends are distinct cells, and the shuffle swaps entries.\<close>

lemma distinct_concat_map:
  "distinct xs \<Longrightarrow> (\<And>x. x \<in> set xs \<Longrightarrow> distinct (f x)) \<Longrightarrow>
   (\<And>x y. x \<in> set xs \<Longrightarrow> y \<in> set xs \<Longrightarrow> x \<noteq> y \<Longrightarrow> set (f x) \<inter> set (f y) = {}) \<Longrightarrow>
   distinct (concat (map f xs))"
proof (induction xs)
  case Nil
  then show ?case by simp
next
  case (Cons a xs)
  have 1: "distinct (concat (map f xs))"
    by (rule Cons.IH) (use Cons.prems in auto)
  have 2: "distinct (f a)" using Cons.prems(2) by simp
  have 3: "set (f a) \<inter> set (f y) = {}" if "y \<in> set xs" for y
    using Cons.prems(1) Cons.prems(3) [of a y] that by auto
  then have "set (f a) \<inter> (\<Union>y \<in> set xs. set (f y)) = {}" by blast
  then show ?case using 1 2 by simp
qed

lemma distinct_deadEndCells: "distinct (deadEndCells g cols rows)"
  unfolding deadEndCells_def
proof (rule distinct_concat_map)
  show "distinct [0..<rows]" by simp
next
  fix row
  show "distinct (concat (map (\<lambda>col. if 3 \<le> wallCount (g row col) then [(row, col)] else [])
          [0..<cols]))"
    by (rule distinct_concat_map) auto
next
  fix x y :: nat
  assume "x \<noteq> y"
  then show "set (concat (map (\<lambda>col. if 3 \<le> wallCount (g x col) then [(x, col)] else []) [0..<cols]))
      \<inter> set (concat (map (\<lambda>col. if 3 \<le> wallCount (g y col) then [(y, col)] else []) [0..<cols])) = {}"
    by (auto split: if_splits)
qed

lemma shuffleLoop_distinct:
  "shuffleLoop i xs seed = (ys, seed') \<Longrightarrow> i < length xs \<or> i = 0 \<Longrightarrow> distinct xs \<Longrightarrow> distinct ys"
proof (induction i arbitrary: xs seed)
  case 0
  then show ?case by simp
next
  case (Suc i)
  let ?j = "rng_floor (rng_next seed) (Suc i + 1)"
  let ?xs = "xs[Suc i := xs ! ?j, ?j := xs ! Suc i]"
  have l: "Suc i < length xs" using Suc.prems(2) by auto
  have "?j < Suc i + 1" by (rule rng_floor_lt) (simp_all add: rng_next_lt)
  then have j: "?j < length xs" using l by simp
  have d: "distinct ?xs" using distinct_swap [OF l j] Suc.prems(3) by simp
  have "shuffleLoop i ?xs (rng_next seed) = (ys, seed')"
    using Suc.prems(1) by (simp add: Let_def)
  then show ?case by (rule Suc.IH) (use l d in simp_all)
qed

lemma shuffle_distinct:
  assumes "shuffle xs seed = (ys, seed')" and "distinct xs"
  shows "distinct ys"
proof (rule shuffleLoop_distinct)
  show "shuffleLoop (length xs - 1) xs seed = (ys, seed')" using assms(1) by (simp add: shuffle_def)
  show "length xs - 1 < length xs \<or> length xs - 1 = 0" by (cases xs) simp_all
  show "distinct xs" by fact
qed

lemma placed_concat_map:
  assumes "distinct xs"
    and "\<And>x. C x \<Longrightarrow> P (g x)"
    and "\<And>x y. x \<noteq> y \<Longrightarrow> R (g x) (g y)"
  shows "placed P R (concat (map (\<lambda>x. if C x then [g x] else []) xs))"
  using assms(1)
proof (induction xs)
  case Nil
  then show ?case by (simp add: placed_def)
next
  case (Cons a xs)
  then have ih: "placed P R (concat (map (\<lambda>x. if C x then [g x] else []) xs))" by simp
  have "R (g a) (g y)" if "y \<in> set xs" for y
  proof -
    have "a \<noteq> y" using Cons.prems that by auto
    then show ?thesis by (rule assms(3))
  qed
  then have "\<forall>e \<in> set (concat (map (\<lambda>x. if C x then [g x] else []) xs)). R (g a) e"
    by (auto split: if_splits)
  then show ?case using ih assms(2) [of a] by (simp add: placed_def)
qed

lemma deadEndCoins_placed:
  assumes "distinct deadEnds"
  shows "placed (coin_ok n) (coin_sep n)
     (deadEndCoins numCoins deadEnds (levelCellSize n) (levelOffsetX n) (levelOffsetY n)
        (levelStart n) gl)"
proof -
  let ?X = "cell_centre (levelOffsetX n) (levelCellSize n)"
  let ?Y = "cell_centre (levelOffsetY n) (levelCellSize n)"
  let ?C = "\<lambda>c. dist2d (?X (snd c)) (?Y (fst c)) (px (levelStart n)) (py (levelStart n))
                   > real (levelCellSize n)
                \<and> dist2d (?X (snd c)) (?Y (fst c)) (goal_x gl) (goal_y gl) > real (levelCellSize n)"
  let ?g = "\<lambda>c. \<lparr>px = js_round (?X (snd c)), py = js_round (?Y (fst c))\<rparr>"
  have eq: "deadEndCoins numCoins deadEnds (levelCellSize n) (levelOffsetX n) (levelOffsetY n)
        (levelStart n) gl
      = concat (map (\<lambda>c. if ?C c then [?g c] else []) (take (min numCoins (length deadEnds)) deadEnds))"
    by (simp only: deadEndCoins_def Let_def)
  have d: "distinct (take (min numCoins (length deadEnds)) deadEnds)"
    using assms by (rule distinct_take)
  have p: "coin_ok n (?g c)" if "?C c" for c :: "nat \<times> nat"
  proof -
    have "\<not> dist2d (?X (snd c)) (?Y (fst c)) (px (levelStart n)) (py (levelStart n))
            < real (levelCellSize n)"
      using that by linarith
    then have "\<not> dist2d (js_round (?X (snd c))) (js_round (?Y (fst c)))
                  (px (levelStart n)) (py (levelStart n)) < real (levelCellSize n)"
      by (rule round_keeps_start_distance [rotated]) simp
    then show ?thesis by (simp add: coin_ok_def on_cell_round)
  qed
  have r: "coin_sep n (?g c) (?g c')" if "c \<noteq> c'" for c c' :: "nat \<times> nat"
  proof -
    have "(snd c, fst c) \<noteq> (snd c', fst c')" using that by (auto simp: prod_eq_iff)
    then show ?thesis using cells_apart [of "snd c" "fst c" "snd c'" "fst c'" n]
      by (simp add: coin_sep_def)
  qed
  show ?thesis unfolding eq by (rule placed_concat_map [OF d]) (use p r in blast)+
qed

lemma fillCoins_placed_aux:
  assumes "fillCoins numCoins0 cols0 rows0 cellSize0 offsetX0 offsetY0 st0 gl0 cs0 seed0 = Some y0"
  shows "cellSize0 = levelCellSize n \<longrightarrow> offsetX0 = levelOffsetX n \<longrightarrow> offsetY0 = levelOffsetY n \<longrightarrow>
   st0 = levelStart n \<longrightarrow> placed (coin_ok n) (coin_sep n) cs0 \<longrightarrow>
   placed (coin_ok n) (coin_sep n) (fst y0)"
proof (rule fillCoins.raw_induct [where P = "\<lambda>numCoins cols rows cellSize offsetX offsetY st gl cs seed y.
   cellSize = levelCellSize n \<longrightarrow> offsetX = levelOffsetX n \<longrightarrow> offsetY = levelOffsetY n \<longrightarrow>
   st = levelStart n \<longrightarrow> placed (coin_ok n) (coin_sep n) cs \<longrightarrow>
   placed (coin_ok n) (coin_sep n) (fst y)", OF _ assms], goal_cases)
  case (1 fillCoins' numCoins cols rows cellSize offsetX offsetY st gl cs seed y)
  show ?case
  proof (intro impI)
    assume cS: "cellSize = levelCellSize n" and oX: "offsetX = levelOffsetX n"
      and oY: "offsetY = levelOffsetY n" and sT: "st = levelStart n"
      and pl: "placed (coin_ok n) (coin_sep n) cs"
    let ?s2 = "rng_next (rng_next seed)"
    let ?cx = "cell_centre (levelOffsetX n) (levelCellSize n) (rng_floor (rng_next seed) cols)"
    let ?cy = "cell_centre (levelOffsetY n) (levelCellSize n) (rng_floor ?s2 rows)"
    let ?A = "dist2d ?cx ?cy (px (levelStart n)) (py (levelStart n)) < real (levelCellSize n)
              \<or> dist2d ?cx ?cy (goal_x gl) (goal_y gl) < real (levelCellSize n)"
    let ?B = "\<exists>c \<in> set cs. dist2d ?cx ?cy (px c) (py c) < real (levelCellSize n) * 0.8"
    let ?new = "\<lparr>px = js_round ?cx, py = js_round ?cy\<rparr>"
    let ?f = "\<lambda>cs. fillCoins' numCoins cols rows (levelCellSize n) (levelOffsetX n) (levelOffsetY n)
                 (levelStart n) gl cs ?s2"
    have ih: "placed (coin_ok n) (coin_sep n) (fst y)"
      if "?f cs1 = Some y" "placed (coin_ok n) (coin_sep n) cs1" for cs1
      using 1(1) [OF that(1)] that(2) by simp
    have eq: "(if length cs < numCoins
               then if ?A then ?f cs else if ?B then ?f cs else ?f (cs @ [?new])
               else Some (cs, seed)) = Some y"
      using 1(2) unfolding cS oX oY sT by (simp only: Let_def)
    show "placed (coin_ok n) (coin_sep n) (fst y)"
    proof (cases "length cs < numCoins")
      case False
      then have "y = (cs, seed)" using eq by simp
      then show ?thesis using pl by simp
    next
      case l: True
      show ?thesis
      proof (cases "?A \<or> ?B")
        case True
        then have "?f cs = Some y" using eq l by (auto split: if_splits)
        then show ?thesis using pl by (rule ih)
      next
        case False
        then have a: "\<not> ?A" and b: "\<not> ?B" by blast+
        have r: "?f (cs @ [?new]) = Some y"
          using eq by (simp only: l a b if_True if_False)
        have st: "\<not> dist2d ?cx ?cy (px (levelStart n)) (py (levelStart n)) < real (levelCellSize n)"
          using a by blast
        have "\<not> dist2d (js_round ?cx) (js_round ?cy) (px (levelStart n)) (py (levelStart n))
                 < real (levelCellSize n)"
          by (rule round_keeps_start_distance [OF _ st]) simp
        then have 2: "coin_ok n ?new" by (simp add: coin_ok_def on_cell_round)
        have 3: "\<forall>e \<in> set cs. coin_sep n e ?new"
        proof
          fix e assume e: "e \<in> set cs"
          then have oc: "on_cell n (px e) (py e)"
            using pl by (simp add: placed_def coin_ok_def)
          have "\<not> dist2d ?cx ?cy (px e) (py e) < real (levelCellSize n) * 0.8"
            using b e by blast
          then have "\<not> dist2d (px e) (py e) (js_round ?cx) (js_round ?cy)
                        < real (levelCellSize n) * 0.8"
            by (rule rounded_apart_08 [OF oc])
          then show "coin_sep n e ?new" by (simp add: coin_sep_def)
        qed
        show ?thesis by (rule ih [OF r]) (rule placed_snoc [OF pl 2 3])
      qed
    qed
  qed
qed

lemma generateCoins_placed:
  assumes "generateCoins m maze cols rows (levelCellSize n) (levelOffsetX n) (levelOffsetY n)
      (levelStart n) gl seed = Some (cs, seed')"
  shows "placed (coin_ok n) (coin_sep n) cs"
proof -
  obtain ds s1 where sh: "shuffle (deadEndCells maze cols rows) seed = (ds, s1)"
    by (cases "shuffle (deadEndCells maze cols rows) seed")
  have d: "distinct ds" by (rule shuffle_distinct [OF sh distinct_deadEndCells])
  have f: "fillCoins (min (3 + m div 12) 10) cols rows (levelCellSize n) (levelOffsetX n)
      (levelOffsetY n) (levelStart n) gl
      (deadEndCoins (min (3 + m div 12) 10) ds (levelCellSize n) (levelOffsetX n) (levelOffsetY n)
        (levelStart n) gl) s1 = Some (cs, seed')"
    using assms unfolding generateCoins_def Let_def sh prod.case .
  have "placed (coin_ok n) (coin_sep n) (fst (cs, seed'))"
    using fillCoins_placed_aux [OF f, of n] deadEndCoins_placed [OF d, of n] by blast
  then show ?thesis by (simp only: fst_conv)
qed

subsection \<open>Extra lives\<close>

lemma lifeSpots_ok:
  assumes "s \<in> set (lifeSpots maze cols rows (levelCellSize n) (levelOffsetX n) (levelOffsetY n)
              (levelStart n) gl cs hs)"
  shows "\<exists>i j. px s = cell_centre (levelOffsetX n) (levelCellSize n) i
             \<and> py s = cell_centre (levelOffsetY n) (levelCellSize n) j
             \<and> \<not> dist2d (cell_centre (levelOffsetX n) (levelCellSize n) i)
                     (cell_centre (levelOffsetY n) (levelCellSize n) j)
                     (px (levelStart n)) (py (levelStart n)) < real (levelCellSize n) * 2"
proof -
  let ?X = "cell_centre (levelOffsetX n) (levelCellSize n)"
  let ?Y = "cell_centre (levelOffsetY n) (levelCellSize n)"
  let ?A = "\<lambda>row col. dist2d (?X col) (?Y row) (px (levelStart n)) (py (levelStart n))
                         < real (levelCellSize n) * 2
                     \<or> dist2d (?X col) (?Y row) (goal_x gl) (goal_y gl) < real (levelCellSize n) * 2"
  let ?B = "\<lambda>row col. \<exists>c \<in> set cs. dist2d (?X col) (?Y row) (px c) (py c) < real (levelCellSize n) * 0.5"
  let ?C = "\<lambda>row col. \<exists>h \<in> set hs. dist2d (?X col) (?Y row) (hole_x h) (hole_y h)
                         < real (levelCellSize n) * 0.5"
  let ?f = "\<lambda>row col. if wallCount (maze row col) \<ge> 3 then
                (if ?A row col then [] else if ?B row col then [] else if ?C row col then []
                 else [\<lparr>px = ?X col, py = ?Y row\<rparr>]) else []"
  have eq: "lifeSpots maze cols rows (levelCellSize n) (levelOffsetX n) (levelOffsetY n)
              (levelStart n) gl cs hs
            = concat (map (\<lambda>row. concat (map (?f row) [0..<cols])) [0..<rows])"
    by (simp only: lifeSpots_def Let_def)
  from assms obtain row col where m: "s \<in> set (?f row col)"
    unfolding eq by (auto simp only: set_concat set_map)
  have na: "\<not> ?A row col"
  proof
    assume "?A row col"
    then have "?f row col = []" by (simp only: if_True if_cancel)
    then show False using m by simp
  qed
  have gen: "(if a then (if b then [] else if c then [] else if d then [] else [x]) else []) = []
      \<or> (if a then (if b then [] else if c then [] else if d then [] else [x]) else []) = [x]"
    for a b c d :: bool and x :: point
    by simp
  have "?f row col = [] \<or> ?f row col = [\<lparr>px = ?X col, py = ?Y row\<rparr>]"
    by (rule gen)
  then have s: "s = \<lparr>px = ?X col, py = ?Y row\<rparr>" using m by auto
  show ?thesis
  proof (intro exI conjI)
    show "px s = ?X col" by (simp add: s)
    show "py s = ?Y row" by (simp add: s)
    show "\<not> dist2d (?X col) (?Y row) (px (levelStart n)) (py (levelStart n))
             < real (levelCellSize n) * 2"
      using na by blast
  qed
qed

definition life_ok :: "nat \<Rightarrow> point \<Rightarrow> bool" where
  "life_ok n l \<longleftrightarrow>
     \<not> dist2d (px l) (py l) (px (levelStart n)) (py (levelStart n)) < real (levelCellSize n) * 2"

lemma generateExtraLives_ok:
  assumes g: "generateExtraLives m maze cols rows (levelCellSize n) (levelOffsetX n) (levelOffsetY n)
      (levelStart n) gl cs hs seed = (ls, seed')"
    and l: "l \<in> set ls"
  shows "life_ok n l"
proof -
  let ?spots = "lifeSpots maze cols rows (levelCellSize n) (levelOffsetX n) (levelOffsetY n)
                  (levelStart n) gl cs hs"
  let ?spot = "?spots ! rng_floor (rng_next (rng_next seed)) (length ?spots)"
  have "ls = [] \<or> (0 < length ?spots \<and> ls = [\<lparr>px = js_round (px ?spot), py = js_round (py ?spot)\<rparr>])"
    using g unfolding generateExtraLives_def Let_def by (auto split: if_splits)
  then have len: "0 < length ?spots"
    and ls: "ls = [\<lparr>px = js_round (px ?spot), py = js_round (py ?spot)\<rparr>]"
    using l by auto
  have "rng_floor (rng_next (rng_next seed)) (length ?spots) < length ?spots"
    by (rule rng_floor_lt [OF len rng_next_lt])
  then have "?spot \<in> set ?spots" by (rule nth_mem)
  then obtain i j where x: "px ?spot = cell_centre (levelOffsetX n) (levelCellSize n) i"
    and y: "py ?spot = cell_centre (levelOffsetY n) (levelCellSize n) j"
    and d: "\<not> dist2d (cell_centre (levelOffsetX n) (levelCellSize n) i)
                     (cell_centre (levelOffsetY n) (levelCellSize n) j)
                     (px (levelStart n)) (py (levelStart n)) < real (levelCellSize n) * 2"
    using lifeSpots_ok by blast
  have "\<not> dist2d (js_round (px ?spot)) (js_round (py ?spot))
             (px (levelStart n)) (py (levelStart n)) < real (levelCellSize n) * 2"
    unfolding x y by (rule round_keeps_start_distance [OF _ d]) simp
  then show ?thesis using l unfolding ls by (simp add: life_ok_def)
qed

subsection \<open>The generated level\<close>

lemma generateLevel_parts:
  assumes "generateLevel this_seed n = Some (L, seed')"
  shows "\<exists>maze s1 s2 s3 s4 s5 s6.
     generateHoles (levelCols n) (levelRows n) (levelCellSize n) (levelOffsetX n) (levelOffsetY n)
        (getDifficulty n) (levelStart n) (levelGoal n) s1 = (holes L, s2)
   \<and> generateCoins n maze (levelCols n) (levelRows n) (levelCellSize n) (levelOffsetX n)
        (levelOffsetY n) (levelStart n) (levelGoal n) s2 = Some (coins L, s3)
   \<and> generateExtraLives n maze (levelCols n) (levelRows n) (levelCellSize n) (levelOffsetX n)
        (levelOffsetY n) (levelStart n) (levelGoal n) (coins L) (holes L) s3 = (extraLives L, s4)
   \<and> generatePowerups n (levelCols n) (levelRows n) (levelCellSize n) (levelOffsetX n)
        (levelOffsetY n) (levelStart n) (levelGoal n) (holes L) s4 = (powerups L, s5)
   \<and> generateBouncePads n (levelCols n) (levelRows n) (levelCellSize n) (levelOffsetX n)
        (levelOffsetY n) (levelStart n) (levelGoal n) (holes L) s5 = (bouncePads L, s6)
   \<and> start L = Some (levelStart n)"
  using assms unfolding generateLevel_def Let_def
  by (clarsimp split: prod.splits option.splits) blast

text \<open>
  The two properties of a generated level: an entity at \<open>(x, y)\<close> is not within \<open>d\<close> of the
  start, and no two positions of a list are within \<open>d\<close> of each other. Both are written with
  the comparison of the generator, which rejects a candidate when \<open>dist < d\<close>.
\<close>

definition clear_of_start :: "MazeDefinition \<Rightarrow> real \<Rightarrow> real \<Rightarrow> real \<Rightarrow> bool" where
  "clear_of_start L d x y \<longleftrightarrow>
     (case start L of None \<Rightarrow> False | Some st \<Rightarrow> \<not> dist2d x y (px st) (py st) < d)"

definition spaced :: "real \<Rightarrow> (real \<times> real) list \<Rightarrow> bool" where
  "spaced d ps \<longleftrightarrow>
     (\<forall>i < length ps. \<forall>j < length ps. i \<noteq> j \<longrightarrow>
        \<not> dist2d (fst (ps ! i)) (snd (ps ! i)) (fst (ps ! j)) (snd (ps ! j)) < d)"

lemma placed_spaced:
  assumes p: "placed P R xs"
    and r: "\<And>a b. R a b \<Longrightarrow> \<not> dist2d (fx a) (fy a) (fx b) (fy b) < d"
  shows "spaced d (map (\<lambda>e. (fx e, fy e)) xs)"
  unfolding spaced_def
proof (intro allI impI)
  fix i j
  assume i: "i < length (map (\<lambda>e. (fx e, fy e)) xs)" and j: "j < length (map (\<lambda>e. (fx e, fy e)) xs)"
    and ne: "i \<noteq> j"
  have il: "i < length xs" and jl: "j < length xs" using i j by simp_all
  have "\<not> dist2d (fx (xs ! i)) (fy (xs ! i)) (fx (xs ! j)) (fy (xs ! j)) < d"
  proof (cases "i < j")
    case True
    show ?thesis by (rule r) (rule placed_nth [OF p True jl])
  next
    case False
    then have ji: "j < i" using ne by simp
    have "\<not> dist2d (fx (xs ! j)) (fy (xs ! j)) (fx (xs ! i)) (fy (xs ! i)) < d"
      by (rule r) (rule placed_nth [OF p ji il])
    then show ?thesis by (subst dist2d_commute)
  qed
  then show "\<not> dist2d (fst (map (\<lambda>e. (fx e, fy e)) xs ! i)) (snd (map (\<lambda>e. (fx e, fy e)) xs ! i))
                 (fst (map (\<lambda>e. (fx e, fy e)) xs ! j)) (snd (map (\<lambda>e. (fx e, fy e)) xs ! j)) < d"
    using il jl by simp
qed

lemma placed_all: "placed P R xs \<Longrightarrow> x \<in> set xs \<Longrightarrow> P x"
  by (simp add: placed_def)

text \<open>
  C9, with the thresholds of the code. In every generated level no hole and no bounce pad is
  within \<open>1.5 * cellSize\<close> of the start, no powerup and no extra life within \<open>2 * cellSize\<close>,
  and no coin within \<open>1 * cellSize\<close> (not \<open>1.5\<close>); two holes are never within \<open>1 * cellSize\<close>
  of each other, two coins never within \<open>0.8 * cellSize\<close>, two powerups never within
  \<open>1.5 * cellSize\<close>, two bounce pads never within \<open>2 * cellSize\<close>. Positions are the stored
  ones, after \<open>Math.round\<close>.
\<close>

theorem placement_valid:
  assumes "generateLevel this_seed n = Some (L, seed')"
  shows "(\<forall>h \<in> set (holes L). clear_of_start L (real (levelCellSize n) * 1.5) (hole_x h) (hole_y h))
       \<and> (\<forall>b \<in> set (bouncePads L). clear_of_start L (real (levelCellSize n) * 1.5) (pad_x b) (pad_y b))
       \<and> (\<forall>p \<in> set (powerups L). clear_of_start L (real (levelCellSize n) * 2) (pu_x p) (pu_y p))
       \<and> (\<forall>l \<in> set (extraLives L). clear_of_start L (real (levelCellSize n) * 2) (px l) (py l))
       \<and> (\<forall>c \<in> set (coins L). clear_of_start L (real (levelCellSize n)) (px c) (py c))
       \<and> spaced (real (levelCellSize n)) (map (\<lambda>h. (hole_x h, hole_y h)) (holes L))
       \<and> spaced (real (levelCellSize n) * 0.8) (map (\<lambda>c. (px c, py c)) (coins L))
       \<and> spaced (real (levelCellSize n) * 1.5) (map (\<lambda>p. (pu_x p, pu_y p)) (powerups L))
       \<and> spaced (real (levelCellSize n) * 2) (map (\<lambda>b. (pad_x b, pad_y b)) (bouncePads L))"
proof -
  obtain maze s1 s2 s3 s4 s5 s6 where
    gh: "generateHoles (levelCols n) (levelRows n) (levelCellSize n) (levelOffsetX n) (levelOffsetY n)
        (getDifficulty n) (levelStart n) (levelGoal n) s1 = (holes L, s2)"
    and gc: "generateCoins n maze (levelCols n) (levelRows n) (levelCellSize n) (levelOffsetX n)
        (levelOffsetY n) (levelStart n) (levelGoal n) s2 = Some (coins L, s3)"
    and gl: "generateExtraLives n maze (levelCols n) (levelRows n) (levelCellSize n) (levelOffsetX n)
        (levelOffsetY n) (levelStart n) (levelGoal n) (coins L) (holes L) s3 = (extraLives L, s4)"
    and gp: "generatePowerups n (levelCols n) (levelRows n) (levelCellSize n) (levelOffsetX n)
        (levelOffsetY n) (levelStart n) (levelGoal n) (holes L) s4 = (powerups L, s5)"
    and gb: "generateBouncePads n (levelCols n) (levelRows n) (levelCellSize n) (levelOffsetX n)
        (levelOffsetY n) (levelStart n) (levelGoal n) (holes L) s5 = (bouncePads L, s6)"
    and st: "start L = Some (levelStart n)"
    using generateLevel_parts [OF assms] by blast
  have ph: "placed (hole_ok n) (hole_sep n) (holes L)" by (rule generateHoles_placed [OF gh])
  have pc: "placed (coin_ok n) (coin_sep n) (coins L)" by (rule generateCoins_placed [OF gc])
  have pp: "placed (pu_ok n) (pu_sep n) (powerups L)" by (rule generatePowerups_placed [OF gp])
  have pb: "placed (pad_ok n) (pad_sep n) (bouncePads L)" by (rule generateBouncePads_placed [OF gb])
  have c: "clear_of_start L d x y \<longleftrightarrow> \<not> dist2d x y (px (levelStart n)) (py (levelStart n)) < d"
    for d x y by (simp add: clear_of_start_def st)
  have 1: "\<forall>h \<in> set (holes L). clear_of_start L (real (levelCellSize n) * 1.5) (hole_x h) (hole_y h)"
    unfolding c using placed_all [OF ph] by (simp add: hole_ok_def)
  have 2: "\<forall>b \<in> set (bouncePads L). clear_of_start L (real (levelCellSize n) * 1.5) (pad_x b) (pad_y b)"
    unfolding c using placed_all [OF pb] by (simp add: pad_ok_def)
  have 3: "\<forall>p \<in> set (powerups L). clear_of_start L (real (levelCellSize n) * 2) (pu_x p) (pu_y p)"
    unfolding c using placed_all [OF pp] by (simp add: pu_ok_def)
  have 4: "\<forall>l \<in> set (extraLives L). clear_of_start L (real (levelCellSize n) * 2) (px l) (py l)"
    unfolding c using generateExtraLives_ok [OF gl] by (simp add: life_ok_def)
  have 5: "\<forall>c \<in> set (coins L). clear_of_start L (real (levelCellSize n)) (px c) (py c)"
    unfolding c using placed_all [OF pc] by (simp add: coin_ok_def)
  have 6: "spaced (real (levelCellSize n)) (map (\<lambda>h. (hole_x h, hole_y h)) (holes L))"
    by (rule placed_spaced [OF ph]) (simp add: hole_sep_def)
  have 7: "spaced (real (levelCellSize n) * 0.8) (map (\<lambda>c. (px c, py c)) (coins L))"
    by (rule placed_spaced [OF pc]) (simp add: coin_sep_def)
  have 8: "spaced (real (levelCellSize n) * 1.5) (map (\<lambda>p. (pu_x p, pu_y p)) (powerups L))"
    by (rule placed_spaced [OF pp]) (simp add: pu_sep_def)
  have 9: "spaced (real (levelCellSize n) * 2) (map (\<lambda>b. (pad_x b, pad_y b)) (bouncePads L))"
    by (rule placed_spaced [OF pb]) (simp add: pad_sep_def)
  show ?thesis by (intro conjI) (fact 1 2 3 4 5 6 7 8 9)+
qed

theorem placement_valid_witness:
  "map_option (coins \<circ> fst) (generateLevel 0 2)
     = Some [\<lparr>px = 150, py = 278\<rparr>, \<lparr>px = 82, py = 74\<rparr>, \<lparr>px = 150, py = 74\<rparr>]
   \<and> map_option (holes \<circ> fst) (generateLevel 0 2)
     = Some [\<lparr>hole_x = 82, hole_y = 142, hole_radius = 12\<rparr>]
   \<and> map_option (start \<circ> fst) (generateLevel 0 2) = Some (Some \<lparr>px = 82, py = 346\<rparr>)
   \<and> \<not> dist2d 82 142 82 346 < real (levelCellSize 2) * 1.5
   \<and> \<not> dist2d 150 278 82 346 < real (levelCellSize 2)
   \<and> \<not> dist2d 150 278 82 74 < real (levelCellSize 2) * 0.8"
proof -
  obtain L seed' where g: "generateLevel 0 2 = Some (L, seed')"
    and c: "coins L = [\<lparr>px = 150, py = 278\<rparr>, \<lparr>px = 82, py = 74\<rparr>, \<lparr>px = 150, py = 74\<rparr>]"
    and h: "holes L = [\<lparr>hole_x = 82, hole_y = 142, hole_radius = 12\<rparr>]"
    and s: "start L = Some \<lparr>px = 82, py = 346\<rparr>"
    using level2 [of 0] by blast
  note v = placement_valid [OF g]
  have "\<forall>h \<in> set (holes L). clear_of_start L (real (levelCellSize 2) * 1.5) (hole_x h) (hole_y h)"
    using v by blast
  then have 1: "\<not> dist2d 82 142 82 346 < real (levelCellSize 2) * 1.5"
    unfolding h clear_of_start_def s by simp
  have "\<forall>c \<in> set (coins L). clear_of_start L (real (levelCellSize 2)) (px c) (py c)"
    using v by blast
  then have 2: "\<not> dist2d 150 278 82 346 < real (levelCellSize 2)"
    unfolding c clear_of_start_def s by simp
  have sp: "spaced (real (levelCellSize 2) * 0.8) (map (\<lambda>c. (px c, py c)) (coins L))"
    using v by blast
  have 3: "\<not> dist2d 150 278 82 74 < real (levelCellSize 2) * 0.8"
    using sp [unfolded spaced_def, rule_format, of 0 1] by (simp add: c)
  show ?thesis using g c h s 1 2 3 by simp
qed

end
